theory Spec2Isabelle
  imports Complex_Main "HOL-Library.Multiset" "HOL-Library.Sublist" "HOL-Library.Log_Nat"
begin

section \<open>JavaScript numbers\<close>

text \<open>
  A \<^verbatim>\<open>number\<close> is an IEEE 754 binary64 value.  The finite ones are modelled by the
  rational they denote (the two zeros are not told apart: no operation of the program
  does).  Every arithmetic result is rounded to the nearest representable value, ties to
  even, by \<open>fl\<close>: 53 significant bits, least exponent \<open>-1022\<close> (below it the spacing
  stays \<open>2 ^ -1074\<close>), overflow to an infinity from \<open>2 ^ 1024\<close> on.
\<close>

datatype number = NaN | NegInf | PosInf | Fin rat

definition round_half_even :: "rat \<Rightarrow> int" where
  "round_half_even x =
     (let f = \<lfloor>x\<rfloor>; d = x - of_int f
      in if d < 1 / 2 then f else if 1 / 2 < d then f + 1 else if even f then f else f + 1)"

text \<open>The exponent \<open>e\<close> with \<open>2 ^ e \<le> \<bar>x\<bar> < 2 ^ (e + 1)\<close>, for \<open>x \<noteq> 0\<close>.\<close>

definition binade :: "rat \<Rightarrow> int" where
  "binade x =
     (case quotient_of \<bar>x\<bar> of (p, q) \<Rightarrow>
        let e = bitlen p - bitlen q
        in if power_int 2 e \<le> \<bar>x\<bar> then e else e - 1)"

definition fl :: "rat \<Rightarrow> number" where
  "fl x =
     (if x = 0 then Fin 0
      else let q = max (binade x) (- 1022) - 52;
               y = of_int (round_half_even (x / power_int 2 q)) * power_int 2 q
           in if 2 ^ 1024 \<le> y then PosInf
              else if y \<le> - (2 ^ 1024) then NegInf
              else Fin y)"

fun num_add :: "number \<Rightarrow> number \<Rightarrow> number" where
  "num_add (Fin x) (Fin y) = fl (x + y)"
| "num_add NaN _ = NaN"
| "num_add _ NaN = NaN"
| "num_add PosInf NegInf = NaN"
| "num_add NegInf PosInf = NaN"
| "num_add PosInf _ = PosInf"
| "num_add _ PosInf = PosInf"
| "num_add NegInf _ = NegInf"
| "num_add _ NegInf = NegInf"

fun num_sgn :: "number \<Rightarrow> int" where
  "num_sgn (Fin x) = (if x < 0 then - 1 else if x = 0 then 0 else 1)"
| "num_sgn PosInf = 1"
| "num_sgn NegInf = - 1"
| "num_sgn NaN = 0"

fun num_mul :: "number \<Rightarrow> number \<Rightarrow> number" where
  "num_mul (Fin x) (Fin y) = fl (x * y)"
| "num_mul NaN _ = NaN"
| "num_mul _ NaN = NaN"
| "num_mul a b =
     (if num_sgn a * num_sgn b = 0 then NaN
      else if 0 < num_sgn a * num_sgn b then PosInf else NegInf)"

text \<open>\<^verbatim>\<open>a < b\<close> and \<^verbatim>\<open>a > b\<close>: false as soon as one side is \<^verbatim>\<open>NaN\<close>.\<close>

fun num_lt :: "number \<Rightarrow> number \<Rightarrow> bool" where
  "num_lt (Fin x) (Fin y) = (x < y)"
| "num_lt NaN _ = False"
| "num_lt _ NaN = False"
| "num_lt NegInf b = (b \<noteq> NegInf)"
| "num_lt a PosInf = (a \<noteq> PosInf)"
| "num_lt _ _ = False"

definition num_gt :: "number \<Rightarrow> number \<Rightarrow> bool" where
  "num_gt a b = num_lt b a"

text \<open>Truthiness of a number: \<^verbatim>\<open>0\<close> and \<^verbatim>\<open>NaN\<close> are falsy.\<close>

definition num_truthy :: "number \<Rightarrow> bool" where
  "num_truthy a = (a \<noteq> NaN \<and> a \<noteq> Fin 0)"

section \<open>Strings and the built-in parsers\<close>

text \<open>
  \<^verbatim>\<open>String.prototype.trim\<close>, \<^verbatim>\<open>parseInt\<close> (no radix argument) and
  \<^verbatim>\<open>parseFloat\<close> as ECMAScript defines them, on strings of 8-bit characters: the
  white space skipped is the ASCII one.
\<close>

definition is_ws :: "char \<Rightarrow> bool" where
  "is_ws c = (c \<in> set [CHR 0x09, CHR 0x0A, CHR 0x0B, CHR 0x0C, CHR 0x0D, CHR '' ''])"

definition trim :: "string \<Rightarrow> string" where
  "trim s = rev (dropWhile is_ws (rev (dropWhile is_ws s)))"

definition digit_val :: "nat \<Rightarrow> char \<Rightarrow> nat option" where
  "digit_val radix c =
     (let n = (of_char c :: nat);
          v = (if 48 \<le> n \<and> n \<le> 57 then Some (n - 48)
               else if 97 \<le> n \<and> n \<le> 122 then Some (n - 87)
               else if 65 \<le> n \<and> n \<le> 90 then Some (n - 55)
               else None)
      in case v of None \<Rightarrow> None | Some d \<Rightarrow> if d < radix then Some d else None)"

definition is_digit :: "nat \<Rightarrow> char \<Rightarrow> bool" where
  "is_digit radix c = (digit_val radix c \<noteq> None)"

definition digits_val :: "nat \<Rightarrow> string \<Rightarrow> nat" where
  "digits_val radix ds = fold (\<lambda>c a. a * radix + the (digit_val radix c)) ds 0"

text \<open>An optional sign: the factor and the rest of the string.\<close>

fun take_sign :: "string \<Rightarrow> rat \<times> string" where
  "take_sign (c # r) =
     (if c = CHR ''-'' then (- 1, r) else if c = CHR ''+'' then (1, r) else (1, c # r))"
| "take_sign [] = (1, [])"

definition parseInt :: "string \<Rightarrow> number" where
  "parseInt s =
     (case take_sign (dropWhile is_ws s) of (sign, t) \<Rightarrow>
        let hex = (take 2 t = ''0x'' \<or> take 2 t = ''0X'');
            radix = (if hex then 16 else 10);
            ds = takeWhile (is_digit radix) (if hex then drop 2 t else t)
        in if ds = [] then NaN else fl (sign * of_nat (digits_val radix ds)))"

text \<open>
  The exponent part counts only when a digit follows \<^verbatim>\<open>e\<close> and its optional sign.
\<close>

definition exponent_part :: "string \<Rightarrow> int" where
  "exponent_part t =
     (case t of
        c # r \<Rightarrow>
          if c = CHR ''e'' \<or> c = CHR ''E'' then
            (case take_sign r of (sign, u) \<Rightarrow>
               let ds = takeWhile (is_digit 10) u
               in if ds = [] then 0
                  else (if sign < 0 then - 1 else 1) * int (digits_val 10 ds))
          else 0
      | [] \<Rightarrow> 0)"

definition parseFloat :: "string \<Rightarrow> number" where
  "parseFloat s =
     (case take_sign (dropWhile is_ws s) of (sign, t) \<Rightarrow>
        if take 8 t = ''Infinity'' then (if sign < 0 then NegInf else PosInf)
        else
          let ip = takeWhile (is_digit 10) t;
              t1 = dropWhile (is_digit 10) t;
              dot = (t1 \<noteq> [] \<and> hd t1 = CHR ''.'');
              fp = (if dot then takeWhile (is_digit 10) (tl t1) else []);
              t2 = (if dot then dropWhile (is_digit 10) (tl t1) else t1)
          in if ip = [] \<and> fp = [] then NaN
             else fl (sign * (of_nat (digits_val 10 ip)
                              + of_nat (digits_val 10 fp) / 10 ^ length fp)
                      * power_int 10 (exponent_part t2)))"

text \<open>\<^verbatim>\<open>Date.now().toString()\<close>: the decimal digits of an integer.\<close>

fun nat_digits :: "nat \<Rightarrow> string" where
  "nat_digits n =
     (if n < 10 then [char_of (48 + n)]
      else nat_digits (n div 10) @ [char_of (48 + n mod 10)])"

definition toString :: "int \<Rightarrow> string" where
  "toString i = (if i < 0 then CHR ''-'' # nat_digits (nat (- i)) else nat_digits (nat i))"

section \<open>Data model\<close>

text \<open>
  The two record types of \<^verbatim>\<open>page.tsx\<close> and \<^verbatim>\<open>lib/database.ts\<close>.  Both
  interfaces have a field \<^verbatim>\<open>id\<close>; the fields are prefixed here because record
  fields are global constants.  The fields \<^verbatim>\<open>createdAt\<close> and \<^verbatim>\<open>date\<close> hold the
  string \<^verbatim>\<open>new Date().toISOString()\<close>, and the code reads them only through
  \<^verbatim>\<open>new Date(s).getTime()\<close>; the model stores that millisecond timestamp.
\<close>

datatype difficulty = D1 | D2 | D3 | D4 | D5

fun difficulty_value :: "difficulty \<Rightarrow> nat" where
  "difficulty_value D1 = 1"
| "difficulty_value D2 = 2"
| "difficulty_value D3 = 3"
| "difficulty_value D4 = 4"
| "difficulty_value D5 = 5"

record Lift =
  lift_id :: string
  lift_name :: string
  createdAt :: int

record WorkoutEntry =
  entry_id :: string
  liftId :: string
  weight :: number
  reps :: number
  sets :: number
  difficulty :: difficulty
  date :: int

section \<open>Arrays\<close>

text \<open>
  \<^verbatim>\<open>Array.prototype.sort(cmp)\<close> is stable and orders \<open>a\<close> before \<open>b\<close> when
  \<open>cmp a b < 0\<close>.  It is modelled by insertion from the right: an element goes in front
  of the first element it does not have to follow, so elements that compare equal keep
  the order they had.  \<^verbatim>\<open>sort\<close> reorders the array it is called on and returns that
  same array; \<^verbatim>\<open>filter\<close>, \<^verbatim>\<open>map\<close> and \<^verbatim>\<open>slice\<close> build a new one.
\<close>

fun insort_cmp :: "('a \<Rightarrow> 'a \<Rightarrow> int) \<Rightarrow> 'a \<Rightarrow> 'a list \<Rightarrow> 'a list" where
  "insort_cmp cmp x [] = [x]"
| "insort_cmp cmp x (y # ys) =
     (if cmp x y \<le> 0 then x # y # ys else y # insort_cmp cmp x ys)"

definition sort_cmp :: "('a \<Rightarrow> 'a \<Rightarrow> int) \<Rightarrow> 'a list \<Rightarrow> 'a list" where
  "sort_cmp cmp xs = foldr (insort_cmp cmp) xs []"

text \<open>
  \<^verbatim>\<open>new Set(xs)\<close> keeps the first occurrence of each element, and a \<^verbatim>\<open>Map\<close> keeps
  its keys in the order of their first insertion; \<^verbatim>\<open>size\<close> is the length of either.
\<close>

definition set_add :: "'a \<Rightarrow> 'a list \<Rightarrow> 'a list" where
  "set_add x s = (if x \<in> set s then s else s @ [x])"

definition new_Set :: "'a list \<Rightarrow> 'a list" where
  "new_Set xs = fold set_add xs []"

fun map_set :: "'k \<Rightarrow> 'v \<Rightarrow> ('k \<times> 'v) list \<Rightarrow> ('k \<times> 'v) list" where
  "map_set k v [] = [(k, v)]"
| "map_set k v ((k', v') # m) =
     (if k = k' then (k, v) # m else (k', v') # map_set k v m)"

section \<open>The component state and its handlers\<close>

text \<open>
  The state hooks of \<^verbatim>\<open>GymTracker\<close> (lines 105-114).  The three text fields of the
  log form are the hooks \<^verbatim>\<open>weight\<close>, \<^verbatim>\<open>reps\<close> and \<^verbatim>\<open>sets\<close> of the source, and
  \<open>difficulty_sel\<close> is its hook \<^verbatim>\<open>difficulty\<close>; they are renamed because the entry
  fields have the same names.  The copy of the two lists that \<^verbatim>\<open>useLocalStorage\<close>
  writes to the browser store on every update is not part of the model.
\<close>

record state =
  lifts :: "Lift list"
  workouts :: "WorkoutEntry list"
  newLiftName :: string
  selectedLiftId :: string
  weight_text :: string
  reps_text :: string
  sets_text :: string
  difficulty_sel :: difficulty
  issyncing :: bool

definition initial :: state where
  "initial = \<lparr>lifts = [], workouts = [], newLiftName = [], selectedLiftId = [],
     weight_text = [], reps_text = [], sets_text = [], difficulty_sel = D3,
     issyncing = False\<rparr>"

text \<open>
  \<^verbatim>\<open>addLift\<close> (lines 116-126) and \<^verbatim>\<open>logWorkout\<close> (lines 133-150) read the clock
  twice, once for the id and once for the date: \<open>t\<^sub>1\<close> and \<open>t\<^sub>2\<close>.  A string is truthy
  when it is not empty.
\<close>

definition addLift :: "int \<Rightarrow> int \<Rightarrow> state \<Rightarrow> state" where
  "addLift t\<^sub>1 t\<^sub>2 st =
     (if trim (newLiftName st) \<noteq> [] then
        let newLift = \<lparr>lift_id = toString t\<^sub>1, lift_name = trim (newLiftName st),
                         createdAt = t\<^sub>2\<rparr>
        in st\<lparr>lifts := lifts st @ [newLift], newLiftName := []\<rparr>
      else st)"

definition deleteLift :: "string \<Rightarrow> state \<Rightarrow> state" where
  "deleteLift i st =
     st\<lparr>lifts := filter (\<lambda>lift. lift_id lift \<noteq> i) (lifts st),
        workouts := filter (\<lambda>workout. liftId workout \<noteq> i) (workouts st)\<rparr>"

definition logWorkout :: "int \<Rightarrow> int \<Rightarrow> state \<Rightarrow> state" where
  "logWorkout t\<^sub>1 t\<^sub>2 st =
     (if selectedLiftId st \<noteq> [] \<and> weight_text st \<noteq> [] \<and> reps_text st \<noteq> []
         \<and> sets_text st \<noteq> [] then
        let newWorkout = \<lparr>entry_id = toString t\<^sub>1, liftId = selectedLiftId st,
                            weight = parseFloat (weight_text st),
                            reps = parseInt (reps_text st),
                            sets = parseInt (sets_text st),
                            difficulty = difficulty_sel st, date = t\<^sub>2\<rparr>
        in st\<lparr>workouts := newWorkout # workouts st, weight_text := [], reps_text := [],
              sets_text := [], difficulty_sel := D3\<rparr>
      else st)"

definition deleteWorkout :: "string \<Rightarrow> state \<Rightarrow> state" where
  "deleteWorkout i st =
     st\<lparr>workouts := filter (\<lambda>workout. entry_id workout \<noteq> i) (workouts st)\<rparr>"

text \<open>
  What the user can do: type into the four text inputs, choose an option of the select
  box, press one of the five level buttons, and press the buttons wired to the four
  handlers above.
\<close>

datatype event =
    TypeLiftName string
  | AddLift int int
  | SelectLift string
  | TypeWeight string
  | TypeReps string
  | TypeSets string
  | PressLevel difficulty
  | LogWorkout int int
  | DeleteLift string
  | DeleteWorkout string

fun handle :: "event \<Rightarrow> state \<Rightarrow> state" where
  "handle (TypeLiftName s) st = st\<lparr>newLiftName := s\<rparr>"
| "handle (AddLift t\<^sub>1 t\<^sub>2) st = addLift t\<^sub>1 t\<^sub>2 st"
| "handle (SelectLift s) st = st\<lparr>selectedLiftId := s\<rparr>"
| "handle (TypeWeight s) st = st\<lparr>weight_text := s\<rparr>"
| "handle (TypeReps s) st = st\<lparr>reps_text := s\<rparr>"
| "handle (TypeSets s) st = st\<lparr>sets_text := s\<rparr>"
| "handle (PressLevel d) st = st\<lparr>difficulty_sel := d\<rparr>"
| "handle (LogWorkout t\<^sub>1 t\<^sub>2) st = logWorkout t\<^sub>1 t\<^sub>2 st"
| "handle (DeleteLift i) st = deleteLift i st"
| "handle (DeleteWorkout i) st = deleteWorkout i st"

definition run :: "event list \<Rightarrow> state \<Rightarrow> state" where
  "run evs st = fold handle evs st"

section \<open>Metrics\<close>

text \<open>\<^verbatim>\<open>getMetrics\<close> (lines 174-200); \<open>now\<close> is the clock reading of line 182.\<close>

record metrics =
  totalSessions :: nat
  totalWeight :: number
  uniqueExercises :: nat
  lastWorkoutDate :: "int option"
  daysSinceLastWorkout :: "int option"
  personalRecords :: nat

definition volume :: "WorkoutEntry \<Rightarrow> number" where
  "volume w = num_mul (num_mul (weight w) (reps w)) (sets w)"

definition record_step :: "WorkoutEntry \<Rightarrow> (string \<times> number) list \<Rightarrow> (string \<times> number) list" where
  "record_step w m =
     (let current = (case map_of m (liftId w) of
                       None \<Rightarrow> Fin 0
                     | Some v \<Rightarrow> if num_truthy v then v else Fin 0)
      in if num_gt (weight w) current then map_set (liftId w) (weight w) m else m)"

fun max_list :: "int list \<Rightarrow> int option" where
  "max_list [] = None"
| "max_list (d # ds) = Some (fold max ds d)"

definition getMetrics :: "int \<Rightarrow> state \<Rightarrow> metrics" where
  "getMetrics now st =
     (let ws = workouts st;
          last = max_list (map date ws)
      in \<lparr>totalSessions = length ws,
          totalWeight = fold (\<lambda>w sum. num_add sum (volume w)) ws (Fin 0),
          uniqueExercises = length (new_Set (map liftId ws)),
          lastWorkoutDate = last,
          daysSinceLastWorkout = map_option (\<lambda>d. (now - d) div (1000 * 60 * 60 * 24)) last,
          personalRecords = length (fold record_step ws [])\<rparr>)"

text \<open>
  The sum of the claim about the total volume, in exact arithmetic.
\<close>

fun the_rat :: "number \<Rightarrow> rat" where
  "the_rat (Fin x) = x"
| "the_rat _ = 0"

definition exact_volume :: "WorkoutEntry \<Rightarrow> rat" where
  "exact_volume w = the_rat (weight w) * the_rat (reps w) * the_rat (sets w)"

definition exact_total :: "WorkoutEntry list \<Rightarrow> rat" where
  "exact_total ws = sum_list (map exact_volume ws)"

text \<open>
  When the code computes that sum without rounding.  \<open>exact_steps a ws\<close> says that,
  starting from the sum \<open>a\<close>, every number of \<open>ws\<close> is finite and none of the
  operations of the loop rounds: the two products of each entry and the sum that adds
  it are representable.  A sufficient condition that needs no rounding to be computed:
  for some \<open>k\<close>, every weight is a multiple of \<open>2 ^ -k\<close> that is not negative (whole
  numbers for \<open>k = 0\<close>, halves for \<open>k = 1\<close>, quarters, and so on), and reps and sets are
  whole numbers of at least one.
\<close>

definition is_whole :: "number \<Rightarrow> bool" where
  "is_whole a = (case a of Fin x \<Rightarrow> 0 \<le> x \<and> x = of_int \<lfloor>x\<rfloor> | _ \<Rightarrow> False)"

definition is_fin :: "number \<Rightarrow> bool" where
  "is_fin a = (case a of Fin x \<Rightarrow> True | _ \<Rightarrow> False)"

definition representable :: "rat \<Rightarrow> bool" where
  "representable x = (fl x = Fin x)"

fun exact_steps :: "rat \<Rightarrow> WorkoutEntry list \<Rightarrow> bool" where
  "exact_steps a [] = True"
| "exact_steps a (w # ws) =
     (is_fin (weight w) \<and> is_fin (reps w) \<and> is_fin (sets w)
      \<and> representable (the_rat (weight w) * the_rat (reps w))
      \<and> representable (exact_volume w)
      \<and> representable (a + exact_volume w)
      \<and> exact_steps (a + exact_volume w) ws)"

definition is_dyadic :: "nat \<Rightarrow> number \<Rightarrow> bool" where
  "is_dyadic k a =
     (case a of Fin x \<Rightarrow> 0 \<le> x \<and> x * 2 ^ k = of_int \<lfloor>x * 2 ^ k\<rfloor> | _ \<Rightarrow> False)"

definition dyadic_entry :: "nat \<Rightarrow> WorkoutEntry \<Rightarrow> bool" where
  "dyadic_entry k w =
     (is_dyadic k (weight w) \<and> is_whole (reps w) \<and> is_whole (sets w)
      \<and> num_gt (reps w) (Fin 0) \<and> num_gt (sets w) (Fin 0))"

text \<open>
  What holds of the map of records while the loop of lines 185-190 runs: every key
  occurs once, and every stored weight is greater than zero.
\<close>

definition records_ok :: "(string \<times> number) list \<Rightarrow> bool" where
  "records_ok m = (distinct (map fst m) \<and> (\<forall>(k, v) \<in> set m. num_gt v (Fin 0)))"

text \<open>\<^verbatim>\<open>getExerciseProgression\<close> (lines 202-217): the sort works on the filtered copy.\<close>

datatype progression = Up | Down | Neutral

definition getExerciseProgression :: "string \<Rightarrow> state \<Rightarrow> progression" where
  "getExerciseProgression i st =
     (let exerciseWorkouts =
            sort_cmp (\<lambda>a b. date a - date b) (filter (\<lambda>w. liftId w = i) (workouts st));
          n = length exerciseWorkouts
      in if n < 2 then Neutral
         else let recent = exerciseWorkouts ! (n - 1);
                  previous = exerciseWorkouts ! (n - 2)
              in if num_gt (weight recent) (weight previous) then Up
                 else if num_lt (weight recent) (weight previous) then Down
                 else if num_gt (reps recent) (reps previous) then Up
                 else if num_lt (reps recent) (reps previous) then Down
                 else Neutral)"

text \<open>
  \<^verbatim>\<open>getRecentWorkouts\<close> (lines 219-223) calls \<^verbatim>\<open>sort\<close> on the state array itself, so
  it returns the slice together with the state it leaves behind.
\<close>

definition getRecentWorkouts :: "state \<Rightarrow> WorkoutEntry list \<times> state" where
  "getRecentWorkouts st =
     (let sorted = sort_cmp (\<lambda>a b. date b - date a) (workouts st)
      in (take 5 sorted, st\<lparr>workouts := sorted\<rparr>))"

section \<open>Sync bridge\<close>

text \<open>
  \<^verbatim>\<open>lib/database.ts\<close>.  The outcome of each \<^verbatim>\<open>fetch\<close> is an input: the promise is
  rejected, or it yields a response with its \<^verbatim>\<open>ok\<close> flag and, for the load request,
  a body.  Reading the body as JSON fails, or gives \<^verbatim>\<open>null\<close>, or gives an object whose
  two fields are present or missing.  A function returns \<open>Inr\<close> of its value, or \<open>Inl\<close>
  of the exception that leaves it.
\<close>

datatype js_error = NetworkError | SyntaxError | TypeError

datatype post_outcome = PostRejected | PostResponse bool

datatype body = NotJson | JsonNull | JsonObject "Lift list option" "WorkoutEntry list option"

datatype get_outcome = GetRejected | GetResponse bool body

definition try_catch :: "js_error + 'a \<Rightarrow> (js_error \<Rightarrow> js_error + 'a) \<Rightarrow> js_error + 'a" where
  "try_catch block handler = (case block of Inl e \<Rightarrow> handler e | Inr v \<Rightarrow> Inr v)"

definition syncDataToCloud ::
  "Lift list \<Rightarrow> WorkoutEntry list \<Rightarrow> string \<Rightarrow> post_outcome \<Rightarrow> js_error + bool" where
  "syncDataToCloud ls ws userId net =
     (if userId = [] then Inr False
      else try_catch
             (case net of
                PostRejected \<Rightarrow> Inl NetworkError
              | PostResponse ok \<Rightarrow> Inr ok)
             (\<lambda>error. Inr False))"

definition or_empty :: "'a list option \<Rightarrow> 'a list" where
  "or_empty v = (case v of None \<Rightarrow> [] | Some xs \<Rightarrow> xs)"

definition loadDataFromCloud ::
  "string \<Rightarrow> get_outcome \<Rightarrow> js_error + (Lift list \<times> WorkoutEntry list)" where
  "loadDataFromCloud userId net =
     (if userId = [] then Inr ([], [])
      else case try_catch
                  (case net of
                     GetRejected \<Rightarrow> Inl NetworkError
                   | GetResponse ok b \<Rightarrow>
                       if ok then
                         (case b of
                            NotJson \<Rightarrow> Inl SyntaxError
                          | JsonNull \<Rightarrow> Inl TypeError
                          | JsonObject l w \<Rightarrow> Inr (Some (or_empty l, or_empty w)))
                       else Inr None)
                  (\<lambda>error. Inr None) of
             Inl e \<Rightarrow> Inl e
           | Inr (Some data) \<Rightarrow> Inr data
           | Inr None \<Rightarrow> Inr ([], []))"

text \<open>
  The sync functions of the component (lines 226-270).  \<open>user\<close> is \<^verbatim>\<open>user?.id\<close>.
  \<^verbatim>\<open>loadFromCloud\<close> gives the state after the answer has come; \<^verbatim>\<open>syncToCloud\<close>
  gives the push it sends, if any; \<open>signInEffect\<close> is one run of the effect of lines
  260-270 and gives the requests it starts, in order.
\<close>

definition loadFromCloud :: "string option \<Rightarrow> get_outcome \<Rightarrow> state \<Rightarrow> state" where
  "loadFromCloud user net st =
     (case user of
        None \<Rightarrow> st
      | Some uid \<Rightarrow>
          if uid = [] then st
          else (case loadDataFromCloud uid net of
                  Inl e \<Rightarrow> st
                | Inr (cl, cw) \<Rightarrow>
                    if 0 < length cl \<or> 0 < length cw
                    then st\<lparr>lifts := cl, workouts := cw\<rparr>
                    else st))"

datatype request = Pull string | Push "Lift list" "WorkoutEntry list" string

definition syncToCloud :: "string option \<Rightarrow> state \<Rightarrow> request list" where
  "syncToCloud user st =
     (case user of
        None \<Rightarrow> []
      | Some uid \<Rightarrow>
          if uid = [] \<or> issyncing st then []
          else [Push (lifts st) (workouts st) uid])"

definition loadFromCloud_request :: "string option \<Rightarrow> request list" where
  "loadFromCloud_request user =
     (case user of None \<Rightarrow> [] | Some uid \<Rightarrow> if uid = [] then [] else [Pull uid])"

definition signInEffect :: "bool \<Rightarrow> string option \<Rightarrow> bool \<Rightarrow> state \<Rightarrow> request list" where
  "signInEffect isSignedIn user isLoaded st =
     (if isSignedIn \<and> user \<noteq> None \<and> user \<noteq> Some [] \<and> isLoaded then
        loadFromCloud_request user
        @ (if 0 < length (lifts st) \<or> 0 < length (workouts st) then syncToCloud user st
           else [])
      else [])"

section \<open>Sample data\<close>

text \<open>Entries and states with plain numbers, for the worked examples below.\<close>

definition entry :: "string \<Rightarrow> string \<Rightarrow> rat \<Rightarrow> rat \<Rightarrow> rat \<Rightarrow> int \<Rightarrow> WorkoutEntry" where
  "entry i l w r s d =
     \<lparr>entry_id = i, liftId = l, weight = Fin w, reps = Fin r, sets = Fin s,
      difficulty = D3, date = d\<rparr>"

definition lift :: "string \<Rightarrow> string \<Rightarrow> Lift" where
  "lift i n = \<lparr>lift_id = i, lift_name = n, createdAt = 0\<rparr>"

definition holding :: "Lift list \<Rightarrow> WorkoutEntry list \<Rightarrow> state" where
  "holding ls ws = initial\<lparr>lifts := ls, workouts := ws\<rparr>"


section \<open>Rounding\<close>

text \<open>
  \<open>binade\<close> finds the exponent, so a value is rounded by scaling it with the power of
  two of its own exponent; and an integer of magnitude at most \<open>2 ^ 53\<close> is
  representable, so rounding returns it.
\<close>

lemma round_half_even_near:
  assumes "\<bar>x - of_int m\<bar> < 1 / 2"
  shows "round_half_even x = m"
proof -
  from assms have near: "x - of_int m < 1 / 2" "of_int m - x < 1 / 2"
    unfolding abs_less_iff by linarith+
  have "\<lfloor>x\<rfloor> = m \<or> \<lfloor>x\<rfloor> = m - 1"
    using near by linarith
  then show ?thesis
  proof
    assume f: "\<lfloor>x\<rfloor> = m"
    have "x - of_int \<lfloor>x\<rfloor> < 1 / 2"
      unfolding f using near by linarith
    then show ?thesis
      using f by (simp add: round_half_even_def Let_def)
  next
    assume f: "\<lfloor>x\<rfloor> = m - 1"
    have "1 / 2 < x - of_int \<lfloor>x\<rfloor>"
      unfolding f using near by simp
    then show ?thesis
      using f by (simp add: round_half_even_def Let_def)
  qed
qed

lemma round_half_even_int: "round_half_even (of_int k) = k"
  by (rule round_half_even_near) simp

lemma binade_bounds:
  assumes "x \<noteq> 0"
  shows "power_int 2 (binade x) \<le> \<bar>x\<bar> \<and> \<bar>x\<bar> < power_int 2 (binade x + 1)"
proof -
  obtain p q where pq: "quotient_of \<bar>x\<bar> = (p, q)"
    by (cases "quotient_of \<bar>x\<bar>")
  have q: "0 < q"
    using pq by (rule quotient_of_denom_pos)
  have x: "\<bar>x\<bar> = of_int p / of_int q"
    using pq by (rule quotient_of_div)
  have p: "0 < p"
  proof -
    have "0 < \<bar>x\<bar>" using assms by simp
    then have "0 < (of_int p :: rat) / of_int q" by (simp only: x)
    then show ?thesis using q by (simp add: zero_less_divide_iff)
  qed
  define bp where "bp = bitlen p"
  define bq where "bq = bitlen q"
  have bl: "power_int 2 (bitlen k - 1) \<le> (of_int k :: rat) \<and> (of_int k :: rat) < power_int 2 (bitlen k)"
    if "0 < k" for k
  proof -
    from that have b1: "1 \<le> bitlen k"
      by (auto simp: bitlen_alt_def)
    from bitlen_bounds [OF that]
    have "(2::int) ^ nat (bitlen k - 1) \<le> k" "k < 2 ^ nat (bitlen k)"
      by simp_all
    then have "(of_int ((2::int) ^ nat (bitlen k - 1)) :: rat) \<le> of_int k"
      "(of_int k :: rat) < of_int (2 ^ nat (bitlen k))"
      by (simp_all only: of_int_le_iff of_int_less_iff)
    then show ?thesis
      using b1 by (simp add: power_int_def)
  qed
  have bp: "power_int 2 (bp - 1) \<le> (of_int p :: rat)" "(of_int p :: rat) < power_int 2 bp"
    using bl [OF p] by (simp_all add: bp_def)
  have bq: "power_int 2 (bq - 1) \<le> (of_int q :: rat)" "(of_int q :: rat) < power_int 2 bq"
    using bl [OF q] by (simp_all add: bq_def)
  have qpos: "0 < (of_int q :: rat)" using q by simp
  have add: "power_int (2::rat) (a + b) = power_int 2 a * power_int 2 b" for a b
    by (rule power_int_add) simp
  have lo: "power_int 2 (bp - bq - 1) < \<bar>x\<bar>"
  proof -
    have "power_int (2::rat) (bp - bq - 1) * of_int q < power_int 2 (bp - bq - 1) * power_int 2 bq"
      using bq(2) by (simp add: mult_strict_left_mono)
    also have "\<dots> = power_int 2 (bp - 1)"
      by (simp add: add [symmetric])
    also have "\<dots> \<le> of_int p" by (rule bp(1))
    finally show ?thesis
      using qpos by (simp add: x pos_less_divide_eq)
  qed
  have hi: "\<bar>x\<bar> < power_int 2 (bp - bq + 1)"
  proof -
    have "(of_int p :: rat) < power_int 2 bp" by (rule bp(2))
    also have "\<dots> = power_int 2 (bp - bq + 1) * power_int 2 (bq - 1)"
      by (simp add: add [symmetric])
    also have "\<dots> \<le> power_int 2 (bp - bq + 1) * of_int q"
      using bq(1) by (simp add: mult_left_mono)
    finally show ?thesis
      using qpos by (simp add: x pos_divide_less_eq)
  qed
  have b: "binade x = (if power_int 2 (bp - bq) \<le> \<bar>x\<bar> then bp - bq else bp - bq - 1)"
    by (simp add: binade_def pq Let_def bp_def bq_def)
  show ?thesis
  proof (cases "power_int 2 (bp - bq) \<le> \<bar>x\<bar>")
    case True
    then show ?thesis using hi by (simp add: b)
  next
    case False
    then show ?thesis using lo by (simp add: b)
  qed
qed

lemma binade_unique:
  assumes "power_int 2 e \<le> \<bar>x\<bar>" and "\<bar>x\<bar> < power_int 2 (e + 1)"
  shows "binade x = e"
proof -
  have "0 < power_int (2::rat) e" by simp
  with assms(1) have "0 < \<bar>x\<bar>" by linarith
  then have nz: "x \<noteq> 0" by simp
  note b = binade_bounds [OF nz]
  have mono: "a < b" if "power_int (2::rat) a < power_int 2 b" for a b :: int
  proof (rule ccontr)
    assume "\<not> a < b"
    then have "b \<le> a" by simp
    then have "power_int (2::rat) b \<le> power_int 2 a"
      by (intro power_int_increasing) simp_all
    with that show False by simp
  qed
  have "power_int (2::rat) e < power_int 2 (binade x + 1)"
    using assms(1) b by linarith
  then have 1: "e < binade x + 1" by (rule mono)
  have "power_int (2::rat) (binade x) < power_int 2 (e + 1)"
    using assms(2) b by linarith
  then have 2: "binade x < e + 1" by (rule mono)
  from 1 2 show ?thesis by simp
qed

lemma fl_exact:
  assumes "x \<noteq> 0"
    and "x / power_int 2 (max (binade x) (- 1022) - 52) = of_int m"
    and "\<bar>x\<bar> < 2 ^ 1024"
  shows "fl x = Fin x"
proof -
  let ?q = "max (binade x) (- 1022) - 52"
  have r: "round_half_even (x / power_int 2 ?q) = m"
    by (simp only: assms(2) round_half_even_int)
  have "of_int m * power_int 2 ?q = x / power_int 2 ?q * power_int 2 ?q"
    by (simp only: assms(2))
  also have "\<dots> = x" by simp
  finally have y: "of_int m * power_int 2 ?q = x" .
  from assms(3) have "\<not> 2 ^ 1024 \<le> x" "\<not> x \<le> - (2 ^ 1024)"
    unfolding abs_less_iff by linarith+
  then show ?thesis
    using assms(1) by (simp only: fl_def Let_def r y if_False)
qed

lemma fl_binade:
  assumes "power_int 2 e \<le> \<bar>x\<bar>" and "\<bar>x\<bar> < power_int 2 (e + 1)" and "- 1022 \<le> e"
    and "y = of_int (round_half_even (x / power_int 2 (e - 52))) * power_int 2 (e - 52)"
    and "\<bar>y\<bar> < 2 ^ 1024"
  shows "fl x = Fin y"
proof -
  have "0 < power_int (2::rat) e" by simp
  with assms(1) have "0 < \<bar>x\<bar>" by linarith
  then have nz: "x \<noteq> 0" by simp
  have b: "binade x = e"
    using assms(1,2) by (rule binade_unique)
  have q: "max (binade x) (- 1022) - 52 = e - 52"
    using assms(3) by (simp add: b)
  from assms(5) have "\<not> 2 ^ 1024 \<le> y" "\<not> y \<le> - (2 ^ 1024)"
    unfolding abs_less_iff by linarith+
  then show ?thesis
    using nz by (simp only: fl_def Let_def q assms(4) [symmetric] if_False)
qed

lemma fl_int:
  assumes "\<bar>n\<bar> \<le> 2 ^ 53"
  shows "fl (of_int n) = Fin (of_int n)"
proof (cases "n = 0")
  case True
  then show ?thesis by (simp add: fl_def)
next
  case False
  let ?x = "of_int n :: rat"
  define e where "e = binade ?x"
  have nz: "?x \<noteq> 0" using False by simp
  have b: "power_int 2 e \<le> \<bar>?x\<bar>" "\<bar>?x\<bar> < power_int 2 (e + 1)"
    using binade_bounds [OF nz] by (simp_all add: e_def)
  have mono: "a < b" if "power_int (2::rat) a < power_int 2 b" for a b :: int
  proof (rule ccontr)
    assume "\<not> a < b"
    then have "b \<le> a" by simp
    then have "power_int (2::rat) b \<le> power_int 2 a"
      by (intro power_int_increasing) simp_all
    with that show False by simp
  qed
  have "1 \<le> \<bar>?x\<bar>"
    using False by (simp flip: of_int_abs)
  then have "power_int (2::rat) 0 < power_int 2 (e + 1)"
    using b(2) by simp
  then have e0: "0 \<le> e" using mono by fastforce
  have x53: "\<bar>?x\<bar> \<le> 2 ^ 53"
    using assms by (metis of_int_abs of_int_le_iff of_int_numeral of_int_power)
  then have "power_int (2::rat) e < power_int 2 54"
    using b(1) by simp
  then have e53: "e \<le> 53" using mono by fastforce
  have small: "\<bar>?x\<bar> < 2 ^ 1024"
    using x53 by (rule le_less_trans) simp
  have "\<exists>m. ?x / power_int 2 (e - 52) = of_int m"
  proof (cases "e \<le> 52")
    case True
    have "?x / power_int 2 (e - 52) = ?x * power_int 2 (52 - e)"
      by (simp add: power_int_diff)
    also have "\<dots> = ?x * 2 ^ nat (52 - e)"
      using True by (simp add: power_int_def)
    also have "\<dots> = of_int (n * 2 ^ nat (52 - e))"
      by simp
    finally show ?thesis by blast
  next
    case False
    with e53 have e: "e = 53" by simp
    from b(1) x53 have "\<bar>?x\<bar> = 2 ^ 53" by (simp add: e)
    then have "\<bar>n\<bar> = 2 ^ 53"
      by (metis of_int_abs of_int_eq_iff of_int_numeral of_int_power)
    then have "n = 2 ^ 53 \<or> n = - (2 ^ 53)" by linarith
    then have "?x / power_int 2 (e - 52) = of_int (n div 2)"
      by (auto simp: e)
    then show ?thesis by blast
  qed
  then obtain m where "?x / power_int 2 (max (binade ?x) (- 1022) - 52) = of_int m"
    using e0 by (auto simp: e_def max_def)
  from fl_exact [OF nz this small] show ?thesis .
qed

lemma pow2_less_cancel:
  assumes "power_int (2::rat) a < power_int 2 b"
  shows "a < b"
proof (rule ccontr)
  assume "\<not> a < b"
  then have "b \<le> a" by simp
  then have "power_int (2::rat) b \<le> power_int 2 a"
    by (intro power_int_increasing) simp_all
  with assms show False by simp
qed

lemma fl_dyadic:
  assumes "\<bar>n\<bar> \<le> 2 ^ 53" and "k \<le> 1022"
  shows "fl (of_int n / 2 ^ k) = Fin (of_int n / 2 ^ k)"
proof (cases "n = 0")
  case True
  then show ?thesis by (simp add: fl_def)
next
  case False
  define x :: rat where "x = of_int n / 2 ^ k"
  define e where "e = binade x"
  have xp: "x = of_int n * power_int 2 (- int k)"
    by (simp add: x_def power_int_minus field_simps)
  have nz: "x \<noteq> 0" using False by (simp add: x_def)
  have b: "power_int 2 e \<le> \<bar>x\<bar>" "\<bar>x\<bar> < power_int 2 (e + 1)"
    using binade_bounds [OF nz] by (simp_all add: e_def)
  have add: "power_int (2::rat) (a + b) = power_int 2 a * power_int 2 b" for a b
    by (rule power_int_add) simp
  have absx: "\<bar>x\<bar> = \<bar>of_int n :: rat\<bar> * power_int 2 (- int k)"
    by (simp add: xp abs_mult)
  have n1: "1 \<le> \<bar>of_int n :: rat\<bar>"
    using False by (simp flip: of_int_abs)
  have n53: "\<bar>of_int n :: rat\<bar> \<le> 2 ^ 53"
    using assms(1) by (metis of_int_abs of_int_le_iff of_int_numeral of_int_power)
  have pk: "0 < power_int (2::rat) (- int k)" by simp
  have "1 * power_int (2::rat) (- int k) \<le> \<bar>of_int n :: rat\<bar> * power_int 2 (- int k)"
    using n1 pk by (intro mult_right_mono) simp_all
  then have "power_int (2::rat) (- int k) \<le> \<bar>x\<bar>"
    unfolding absx by simp
  then have "power_int (2::rat) (- int k) < power_int 2 (e + 1)"
    using b(2) by linarith
  then have lo: "- int k \<le> e"
    using pow2_less_cancel by fastforce
  have "\<bar>x\<bar> \<le> 2 ^ 53 * power_int 2 (- int k)"
    unfolding absx using n53 pk by (intro mult_right_mono) simp_all
  also have "\<dots> = power_int 2 (53 - int k)"
    using add [of 53 "- int k"] by simp
  finally have up: "\<bar>x\<bar> \<le> power_int 2 (53 - int k)" .
  have "power_int (2::rat) (53 - int k) < power_int 2 (54 - int k)"
    by (intro power_int_strict_increasing) simp_all
  with up b(1) have "power_int (2::rat) e < power_int 2 (54 - int k)"
    by linarith
  then have hi: "e \<le> 53 - int k"
    using pow2_less_cancel by fastforce
  have scaled: "x / power_int 2 (e - 52) = of_int n * power_int 2 (52 - int k - e)"
  proof -
    have "x / power_int 2 (e - 52) = x * power_int 2 (52 - e)"
      by (simp add: power_int_diff)
    also have "\<dots> = of_int n * (power_int 2 (- int k) * power_int 2 (52 - e))"
      by (simp add: xp)
    also have "power_int (2::rat) (- int k) * power_int 2 (52 - e) = power_int 2 (52 - int k - e)"
      using add [of "- int k" "52 - e"] by (simp add: algebra_simps)
    finally show ?thesis .
  qed
  have "\<exists>m. x / power_int 2 (e - 52) = of_int m"
  proof (cases "e \<le> 52 - int k")
    case True
    then have "power_int (2::rat) (52 - int k - e) = 2 ^ nat (52 - int k - e)"
      by (simp add: power_int_def)
    then have "x / power_int 2 (e - 52) = of_int (n * 2 ^ nat (52 - int k - e))"
      by (simp add: scaled)
    then show ?thesis by blast
  next
    case False
    with hi have e: "e = 53 - int k" by simp
    from b(1) up have "\<bar>x\<bar> = power_int 2 (53 - int k)" by (simp add: e)
    also have "\<dots> = 2 ^ 53 * power_int 2 (- int k)"
      using add [of 53 "- int k"] by simp
    finally have "\<bar>of_int n :: rat\<bar> = 2 ^ 53"
      unfolding absx by simp
    then have "\<bar>n\<bar> = 2 ^ 53"
      by (metis of_int_abs of_int_eq_iff of_int_numeral of_int_power)
    then have "n = 2 ^ 53 \<or> n = - (2 ^ 53)" by linarith
    then have "x / power_int 2 (e - 52) = of_int (n div 2)"
      unfolding scaled by (auto simp: e)
    then show ?thesis by blast
  qed
  moreover have "max (binade x) (- 1022) = e"
    using lo assms(2) by (simp add: e_def max_def)
  ultimately obtain m where m: "x / power_int 2 (max (binade x) (- 1022) - 52) = of_int m"
    by auto
  have "power_int (2::rat) (- int k) \<le> power_int 2 0"
    by (intro power_int_increasing) simp_all
  then have "\<bar>of_int n :: rat\<bar> * power_int 2 (- int k) \<le> \<bar>of_int n :: rat\<bar> * 1"
    by (intro mult_left_mono) simp_all
  then have "\<bar>x\<bar> \<le> \<bar>of_int n :: rat\<bar>"
    unfolding absx by simp
  then have "\<bar>x\<bar> \<le> 2 ^ 53"
    using n53 by (rule order_trans)
  then have small: "\<bar>x\<bar> < 2 ^ 1024"
    by (rule le_less_trans) simp
  from fl_exact [OF nz m small] show ?thesis
    by (simp add: x_def)
qed

section \<open>Evaluating the parsers\<close>

lemma digit_vals:
  "digit_val 10 CHR ''0'' = Some 0" "digit_val 10 CHR ''1'' = Some 1"
  "digit_val 10 CHR ''2'' = Some 2" "digit_val 10 CHR ''3'' = Some 3"
  "digit_val 10 CHR ''4'' = Some 4" "digit_val 10 CHR ''5'' = Some 5"
  "digit_val 10 CHR ''6'' = Some 6" "digit_val 10 CHR ''7'' = Some 7"
  "digit_val 10 CHR ''8'' = Some 8" "digit_val 10 CHR ''9'' = Some 9"
  "digit_val 10 CHR ''.'' = None" "digit_val 10 CHR ''-'' = None"
  by (simp_all add: digit_val_def)

lemma floor_numeral_div:
  "\<lfloor>(numeral a :: rat) / numeral b\<rfloor> = numeral a div numeral b"
  "\<lfloor>- (numeral a :: rat) / numeral b\<rfloor> = - numeral a div numeral b"
  using floor_divide_of_int_eq [where ?'a = rat, of "numeral a" "numeral b"]
    floor_divide_of_int_eq [where ?'a = rat, of "- numeral a" "numeral b"]
  by simp_all

lemma fl_40_1: "fl (401 / 10) = Fin (5643573283048653 / 140737488355328)"
  by (rule fl_binade [where e = 5]) (simp_all add: round_half_even_def Let_def floor_numeral_div)

lemma parseFloat_40_1: "parseFloat ''40.1'' = Fin (5643573283048653 / 140737488355328)"
  by (simp add: parseFloat_def is_ws_def is_digit_def digit_vals digits_val_def
      exponent_part_def fl_40_1 Let_def)

lemma parseFloat_neg: "parseFloat ''-5'' = Fin (- 5)"
  using fl_int [of "- 5"]
  by (simp add: parseFloat_def is_ws_def is_digit_def digit_vals digits_val_def
      exponent_part_def Let_def)

lemma parseInt_0: "parseInt ''0'' = Fin 0"
  by (simp add: parseInt_def is_ws_def is_digit_def digit_vals digits_val_def Let_def fl_def)

lemma fl_numeral:
  "numeral k \<le> (2 ^ 53 :: int) \<Longrightarrow> fl (numeral k) = Fin (numeral k)"
  "numeral k \<le> (2 ^ 53 :: int) \<Longrightarrow> fl (- numeral k) = Fin (- numeral k)"
  "fl 1 = Fin 1"
  "fl 0 = Fin 0"
  using fl_int [of "numeral k"] fl_int [of "- numeral k"] fl_int [of 1] fl_int [of 0]
  by simp_all

lemma toString_small:
  "toString 1 = ''1''" "toString 2 = ''2''" "toString 3 = ''3''"
  by (simp_all add: toString_def char_of_def bit_0)

lemma parse_samples:
  "parseFloat ''100'' = Fin 100" "parseInt ''5'' = Fin 5" "parseInt ''3'' = Fin 3"
  "parseInt ''8'' = Fin 8" "parseInt ''4'' = Fin 4"
  "parseFloat ''0'' = Fin 0" "parseInt ''10'' = Fin 10"
  by (simp_all add: parseFloat_def parseInt_def is_ws_def is_digit_def digit_vals
      digits_val_def exponent_part_def fl_numeral Let_def)

lemma fl_sums:
  "fl (5643573283048653 / 17592186044416) = Fin (5643573283048653 / 17592186044416)"
  "fl (5643573283048653 / 4398046511104) = Fin (5643573283048653 / 4398046511104)"
  "fl (12240643049704653 / 4398046511104) = Fin (3060160762426163 / 1099511627776)"
    apply (rule fl_binade [where e = 8]; simp add: round_half_even_def Let_def floor_numeral_div)
   apply (rule fl_binade [where e = 10]; simp add: round_half_even_def Let_def floor_numeral_div)
  apply (rule fl_binade [where e = 11]; simp add: round_half_even_def Let_def floor_numeral_div)
  done

section \<open>Deletion\<close>

lemma count_mset_filter:
  "count (mset (filter P xs)) x = (if P x then count (mset xs) x else 0)"
  by (induction xs) auto

text \<open>
  Claim C1.  Deleting the exercise with id \<open>E\<close> leaves every exercise with another id
  exactly as often as before and in the same relative order, leaves no exercise with id
  \<open>E\<close>, and does the same to the workout entries with respect to their \<open>liftId\<close>.
  Deleting a workout entry by id does the same to the workout entries with respect to
  their own id and returns the exercise list as it was.
\<close>

theorem delete_removes_exactly:
  "count (mset (lifts (deleteLift E st))) l
     = (if lift_id l = E then 0 else count (mset (lifts st)) l)
   \<and> subseq (lifts (deleteLift E st)) (lifts st)
   \<and> count (mset (workouts (deleteLift E st))) w
     = (if liftId w = E then 0 else count (mset (workouts st)) w)
   \<and> subseq (workouts (deleteLift E st)) (workouts st)
   \<and> count (mset (workouts (deleteWorkout W st))) w
     = (if entry_id w = W then 0 else count (mset (workouts st)) w)
   \<and> subseq (workouts (deleteWorkout W st)) (workouts st)
   \<and> lifts (deleteWorkout W st) = lifts st"
  by (simp add: deleteLift_def deleteWorkout_def count_mset_filter)

section \<open>The sync bridge and the merge on sign-in\<close>

text \<open>
  Claim C10.  Neither function of the sync bridge lets an exception out.  The push gives
  \<open>False\<close> for an empty user id, a rejected request and a response that is not ok; the
  pull gives the pair of empty lists for an empty user id, a rejected request, a
  response that is not ok, and a body that is unreadable, \<^verbatim>\<open>null\<close> or without lists.
\<close>

theorem sync_bridge_degrades:
  "syncDataToCloud ls ws [] pnet = Inr False
   \<and> syncDataToCloud ls ws uid PostRejected = Inr False
   \<and> syncDataToCloud ls ws uid (PostResponse False) = Inr False
   \<and> (\<exists>r. syncDataToCloud ls ws uid pnet = Inr r)
   \<and> loadDataFromCloud [] gnet = Inr ([], [])
   \<and> loadDataFromCloud uid GetRejected = Inr ([], [])
   \<and> loadDataFromCloud uid (GetResponse False b) = Inr ([], [])
   \<and> loadDataFromCloud uid (GetResponse True NotJson) = Inr ([], [])
   \<and> loadDataFromCloud uid (GetResponse True JsonNull) = Inr ([], [])
   \<and> loadDataFromCloud uid (GetResponse True (JsonObject None None)) = Inr ([], [])
   \<and> (\<exists>d. loadDataFromCloud uid gnet = Inr d)"
  by (auto simp: syncDataToCloud_def loadDataFromCloud_def try_catch_def or_empty_def
      split: post_outcome.split get_outcome.split body.split)

text \<open>
  Claim C2.  For a signed-in user, when the pull gives a pair of lists of which one is
  not empty, the lists of the state after \<^verbatim>\<open>loadFromCloud\<close> are exactly the lists
  pulled: nothing of the local lists is kept.
\<close>

theorem pull_replaces_local:
  assumes "uid \<noteq> []"
    and "loadDataFromCloud uid net = Inr (rl, rw)"
    and "rl \<noteq> [] \<or> rw \<noteq> []"
  shows "lifts (loadFromCloud (Some uid) net st) = rl
         \<and> workouts (loadFromCloud (Some uid) net st) = rw"
  using assms by (auto simp: loadFromCloud_def)

theorem pull_replaces_local_witness:
  "''u1'' \<noteq> []
   \<and> loadDataFromCloud ''u1'' (GetResponse True (JsonObject (Some [lift ''1'' ''Squat'']) None))
       = Inr ([lift ''1'' ''Squat''], [])
   \<and> lifts (loadFromCloud (Some ''u1'')
               (GetResponse True (JsonObject (Some [lift ''1'' ''Squat'']) None))
               (holding [lift ''2'' ''Press''] [entry ''3'' ''2'' 60 5 3 7]))
       = [lift ''1'' ''Squat'']
   \<and> workouts (loadFromCloud (Some ''u1'')
               (GetResponse True (JsonObject (Some [lift ''1'' ''Squat'']) None))
               (holding [lift ''2'' ''Press''] [entry ''3'' ''2'' 60 5 3 7]))
       = []"
proof -
  have h1: "''u1'' \<noteq> []" by simp
  have h2: "loadDataFromCloud ''u1''
              (GetResponse True (JsonObject (Some [lift ''1'' ''Squat'']) None))
            = Inr ([lift ''1'' ''Squat''], [])"
    by (simp add: loadDataFromCloud_def try_catch_def or_empty_def)
  have h3: "[lift ''1'' ''Squat''] \<noteq> [] \<or> ([] :: WorkoutEntry list) \<noteq> []" by simp
  show ?thesis
    using h1 h2 h3
      pull_replaces_local [OF h1 h2 h3,
        of "holding [lift ''2'' ''Press''] [entry ''3'' ''2'' 60 5 3 7]"]
    by simp
qed

text \<open>
  Claim C3, as the code has it.  For a signed-in user, when the pull gives the pair of
  empty lists, \<^verbatim>\<open>loadFromCloud\<close> returns the state it was given.  The effect that runs
  on sign-in starts the pull and then a push of the local lists exactly when one of the
  local lists is not empty and no sync is under way; what the pull returns plays no
  part in that.
\<close>

theorem empty_pull_keeps_local:
  assumes "uid \<noteq> []"
  shows "(loadDataFromCloud uid net = Inr ([], []) \<longrightarrow> loadFromCloud (Some uid) net st = st)
         \<and> signInEffect True (Some uid) True st
             = Pull uid # (if (lifts st \<noteq> [] \<or> workouts st \<noteq> []) \<and> \<not> issyncing st
                           then [Push (lifts st) (workouts st) uid] else [])"
  using assms
  by (simp add: loadFromCloud_def signInEffect_def syncToCloud_def loadFromCloud_request_def)

theorem empty_pull_keeps_local_witness:
  "loadDataFromCloud ''u1'' (GetResponse True (JsonObject None None)) = Inr ([], [])
   \<and> loadFromCloud (Some ''u1'') (GetResponse True (JsonObject None None))
        (holding [lift ''2'' ''Press''] []) = holding [lift ''2'' ''Press''] []
   \<and> signInEffect True (Some ''u1'') True (holding [lift ''2'' ''Press''] [])
       = [Pull ''u1'', Push [lift ''2'' ''Press''] [] ''u1'']"
proof -
  have h1: "''u1'' \<noteq> []" by simp
  have h2: "loadDataFromCloud ''u1'' (GetResponse True (JsonObject None None)) = Inr ([], [])"
    by (simp add: loadDataFromCloud_def try_catch_def or_empty_def)
  show ?thesis
    using h2 empty_pull_keeps_local [OF h1, of "GetResponse True (JsonObject None None)"
        "holding [lift ''2'' ''Press''] []"]
    by (simp add: holding_def initial_def)
qed

text \<open>
  The claim as written fails when both local lists are empty: the remote partition is
  empty, and the effect starts the pull and nothing else.
\<close>

theorem empty_pull_no_push:
  "loadDataFromCloud ''u1'' (GetResponse True (JsonObject None None)) = Inr ([], [])
   \<and> signInEffect True (Some ''u1'') True initial = [Pull ''u1'']"
  by (simp add: loadDataFromCloud_def try_catch_def or_empty_def signInEffect_def
      loadFromCloud_request_def initial_def)

section \<open>Sorting by date\<close>

text \<open>
  Both comparators of the source order by the date alone, so the two sorts are the
  stable sort of the library on the date and on the negated date.
\<close>

lemma insort_cmp_key:
  assumes "\<And>a b. (cmp a b \<le> 0) = (f a \<le> f b)"
  shows "insort_cmp cmp x ys = insort_key f x ys"
  by (induction ys) (simp_all add: assms)

lemma sort_cmp_key:
  assumes "\<And>a b. (cmp a b \<le> 0) = (f a \<le> f b)"
  shows "sort_cmp cmp xs = sort_key f xs"
proof -
  have "insort_cmp cmp = insort_key f"
    using insort_cmp_key [of cmp f, OF assms] by (intro ext)
  then show ?thesis by (simp add: sort_cmp_def sort_key_def)
qed

lemma sort_ascending: "sort_cmp (\<lambda>a b. date a - date b) xs = sort_key date xs"
  by (rule sort_cmp_key) simp

lemma sort_descending:
  "sort_cmp (\<lambda>a b. date b - date a) xs = sort_key (\<lambda>w. - date w) xs"
  by (rule sort_cmp_key) simp

lemma insort_key_map:
  assumes "\<And>x. f (h x) = f x"
  shows "insort_key f (h x) (map h ys) = map h (insort_key f x ys)"
  by (induction ys) (simp_all add: assms)

lemma sort_key_map:
  assumes "\<And>x. f (h x) = f x"
  shows "sort_key f (map h xs) = map h (sort_key f xs)"
  by (induction xs) (simp_all add: insort_key_map [of f h, OF assms])

lemma progression_sorted:
  "getExerciseProgression i st =
     (let s = sort_key date (filter (\<lambda>w. liftId w = i) (workouts st))
      in if length s < 2 then Neutral
         else if num_gt (weight (last s)) (weight (last (butlast s))) then Up
         else if num_lt (weight (last s)) (weight (last (butlast s))) then Down
         else if num_gt (reps (last s)) (reps (last (butlast s))) then Up
         else if num_lt (reps (last s)) (reps (last (butlast s))) then Down
         else Neutral)"
proof -
  have "s ! (length s - 1) = last s \<and> s ! (length s - 2) = last (butlast s)"
    if "\<not> length s < 2" for s :: "WorkoutEntry list"
  proof -
    from that have ne: "s \<noteq> []" "butlast s \<noteq> []"
      by (auto simp: butlast_conv_take)
    have "last (butlast s) = butlast s ! (length (butlast s) - 1)"
      using ne(2) by (rule last_conv_nth)
    also have "\<dots> = s ! (length s - 2)"
      using that by (simp add: nth_butlast numeral_2_eq_2)
    finally show ?thesis
      using ne by (simp add: last_conv_nth)
  qed
  note idx = this
  show ?thesis
  proof (cases "length (filter (\<lambda>w. liftId w = i) (workouts st)) < 2")
    case True
    then show ?thesis
      by (simp add: getExerciseProgression_def sort_ascending Let_def)
  next
    case False
    then have "\<not> length (sort_key date (filter (\<lambda>w. liftId w = i) (workouts st))) < 2"
      by simp
    from idx [OF this] False show ?thesis
      by (simp add: getExerciseProgression_def sort_ascending Let_def)
  qed
qed

text \<open>
  Claim C4.  Let \<open>s\<close> be the entries of the exercise in ascending order of date.  With
  fewer than two such entries the progression is neutral.  Otherwise the last entry of
  \<open>s\<close> is compared with the one before it: a greater weight gives up, a smaller weight
  gives down; when the weight is neither, greater reps give up, smaller reps give down,
  and the result is neutral when the reps are neither.  Replacing the sets and the
  difficulty of every entry by anything else does not change the result.
\<close>

theorem progression_latest_two:
  fixes st :: state and i :: string
  defines "s \<equiv> sort_key date (filter (\<lambda>w. liftId w = i) (workouts st))"
  shows "(length (filter (\<lambda>w. liftId w = i) (workouts st)) < 2
            \<longrightarrow> getExerciseProgression i st = Neutral)
   \<and> (2 \<le> length (filter (\<lambda>w. liftId w = i) (workouts st)) \<longrightarrow>
        (num_gt (weight (last s)) (weight (last (butlast s)))
           \<longrightarrow> getExerciseProgression i st = Up)
      \<and> (num_lt (weight (last s)) (weight (last (butlast s)))
           \<longrightarrow> getExerciseProgression i st = Down)
      \<and> (\<not> num_gt (weight (last s)) (weight (last (butlast s)))
         \<and> \<not> num_lt (weight (last s)) (weight (last (butlast s))) \<longrightarrow>
           (num_gt (reps (last s)) (reps (last (butlast s)))
              \<longrightarrow> getExerciseProgression i st = Up)
         \<and> (num_lt (reps (last s)) (reps (last (butlast s)))
              \<longrightarrow> getExerciseProgression i st = Down)
         \<and> (\<not> num_gt (reps (last s)) (reps (last (butlast s)))
            \<and> \<not> num_lt (reps (last s)) (reps (last (butlast s)))
              \<longrightarrow> getExerciseProgression i st = Neutral)))
   \<and> getExerciseProgression i
        (st\<lparr>workouts := map (\<lambda>w. w\<lparr>sets := f w, difficulty := g w\<rparr>) (workouts st)\<rparr>)
       = getExerciseProgression i st"
proof -
  let ?h = "\<lambda>w. w\<lparr>sets := f w, difficulty := g w\<rparr>"
  have filt: "filter (\<lambda>w. liftId w = i) (map ?h ws) = map ?h (filter (\<lambda>w. liftId w = i) ws)"
    for ws
    by (induction ws) simp_all
  have srt: "sort_key date (map ?h ws) = map ?h (sort_key date ws)" for ws
    by (rule sort_key_map) simp
  have frame: "getExerciseProgression i (st\<lparr>workouts := map ?h (workouts st)\<rparr>)
               = getExerciseProgression i st"
  proof (cases "length s < 2")
    case True
    then show ?thesis
      by (simp add: progression_sorted filt srt Let_def s_def)
  next
    case False
    then have ne: "s \<noteq> []" "butlast s \<noteq> []"
      by (auto simp: butlast_conv_take)
    have "last (map ?h s) = ?h (last s)"
      using ne(1) by (rule last_map)
    moreover have "last (butlast (map ?h s)) = ?h (last (butlast s))"
      using ne(2) by (simp add: map_butlast [symmetric] last_map)
    ultimately show ?thesis
      using False by (simp add: progression_sorted filt srt Let_def s_def)
  qed
  have "getExerciseProgression i st = Neutral"
    if "length (filter (\<lambda>w. liftId w = i) (workouts st)) < 2"
    using that by (simp add: progression_sorted Let_def)
  moreover have "getExerciseProgression i st =
      (if num_gt (weight (last s)) (weight (last (butlast s))) then Up
       else if num_lt (weight (last s)) (weight (last (butlast s))) then Down
       else if num_gt (reps (last s)) (reps (last (butlast s))) then Up
       else if num_lt (reps (last s)) (reps (last (butlast s))) then Down
       else Neutral)"
    if "2 \<le> length (filter (\<lambda>w. liftId w = i) (workouts st))"
    using that by (simp add: progression_sorted Let_def s_def)
  moreover have "\<not> (num_gt a b \<and> num_lt a b)" for a b
    by (cases a; cases b) (auto simp: num_gt_def)
  ultimately show ?thesis
    using frame by auto
qed

theorem progression_latest_two_witness:
  "getExerciseProgression ''a''
     (holding [] [entry ''2'' ''a'' 105 5 3 2, entry ''1'' ''a'' 100 5 3 1]) = Up
   \<and> getExerciseProgression ''a''
     (holding [] [entry ''2'' ''a'' 100 6 3 2, entry ''3'' ''b'' 80 5 3 3,
                  entry ''1'' ''a'' 100 8 3 1]) = Down
   \<and> getExerciseProgression ''a'' (holding [] [entry ''1'' ''a'' 100 5 3 1]) = Neutral"
  using
    progression_latest_two [where i = "''a''" and st =
      "holding [] [entry ''2'' ''a'' 105 5 3 2, entry ''1'' ''a'' 100 5 3 1]"]
    progression_latest_two [where i = "''a''" and st =
      "holding [] [entry ''2'' ''a'' 100 6 3 2, entry ''3'' ''b'' 80 5 3 3,
                   entry ''1'' ''a'' 100 8 3 1]"]
    progression_latest_two [where i = "''a''" and st =
      "holding [] [entry ''1'' ''a'' 100 5 3 1]"]
  by (simp add: holding_def initial_def entry_def num_gt_def)

section \<open>Recent workouts\<close>

lemma recent_sorted:
  "fst (getRecentWorkouts st) = take 5 (sort_key (\<lambda>w. - date w) (workouts st))"
  by (simp add: getRecentWorkouts_def sort_descending Let_def)

text \<open>
  Claim C6.  The list \<open>r\<close> returned by \<^verbatim>\<open>getRecentWorkouts\<close> has five entries, or all
  of them when there are fewer; it is in descending order of date; it is taken from the
  workout list, and every entry left out is no later than every entry returned; and for
  each date, the returned entries of that date are the first ones of that date in the
  workout list, in the order they have there.
\<close>

theorem recent_are_latest_five:
  fixes st :: state
  defines "r \<equiv> fst (getRecentWorkouts st)"
  shows "length r = min 5 (length (workouts st))
   \<and> sorted_wrt (\<lambda>a b. date b \<le> date a) r
   \<and> mset r \<subseteq># mset (workouts st)
   \<and> (\<forall>x \<in># mset (workouts st) - mset r. \<forall>y \<in> set r. date x \<le> date y)
   \<and> (\<forall>d. prefix (filter (\<lambda>w. date w = d) r) (filter (\<lambda>w. date w = d) (workouts st)))"
proof -
  let ?s = "sort_key (\<lambda>w. - date w) (workouts st)"
  have r: "r = take 5 ?s"
    by (simp add: r_def recent_sorted)
  have split: "?s = r @ drop 5 ?s"
    by (simp add: r)
  have ms: "mset (workouts st) = mset r + mset (drop 5 ?s)"
    by (metis split mset_append mset_sort)
  have "sorted (map (\<lambda>w. - date w) ?s)"
    by (rule sorted_sort_key)
  then have desc: "sorted_wrt (\<lambda>a b. date b \<le> date a) ?s"
    by (simp add: sorted_map)
  then have desc': "sorted_wrt (\<lambda>a b. date b \<le> date a) (r @ drop 5 ?s)"
    using split by simp
  have 1: "length r = min 5 (length (workouts st))"
    by (simp add: r)
  have 2: "sorted_wrt (\<lambda>a b. date b \<le> date a) r"
    using desc' by (simp add: sorted_wrt_append)
  have 3: "mset r \<subseteq># mset (workouts st)"
    by (simp add: ms)
  have 4: "\<forall>x \<in># mset (workouts st) - mset r. \<forall>y \<in> set r. date x \<le> date y"
    using desc' by (simp add: ms sorted_wrt_append)
  have 5: "prefix (filter (\<lambda>w. date w = d) r) (filter (\<lambda>w. date w = d) (workouts st))" for d
  proof -
    have "filter (\<lambda>w. - date w = - d) ?s = filter (\<lambda>w. - date w = - d) (workouts st)"
      by (rule sort_key_stable)
    then have "filter (\<lambda>w. date w = d) (workouts st)
               = filter (\<lambda>w. date w = d) r @ filter (\<lambda>w. date w = d) (drop 5 ?s)"
      by (subst (asm) split) simp
    then show ?thesis
      by (simp add: prefix_def)
  qed
  from 1 2 3 4 5 show ?thesis by blast
qed

theorem recent_are_latest_five_witness:
  "fst (getRecentWorkouts (holding []
          [entry ''1'' ''a'' 100 5 3 30, entry ''2'' ''b'' 60 5 3 10,
           entry ''3'' ''a'' 100 5 3 50, entry ''4'' ''b'' 60 5 3 50,
           entry ''5'' ''a'' 100 5 3 20, entry ''6'' ''b'' 60 5 3 70,
           entry ''7'' ''a'' 100 5 3 40]))
   = [entry ''6'' ''b'' 60 5 3 70, entry ''3'' ''a'' 100 5 3 50, entry ''4'' ''b'' 60 5 3 50,
      entry ''7'' ''a'' 100 5 3 40, entry ''1'' ''a'' 100 5 3 30]"
  using recent_are_latest_five [of "holding []
          [entry ''1'' ''a'' 100 5 3 30, entry ''2'' ''b'' 60 5 3 10,
           entry ''3'' ''a'' 100 5 3 50, entry ''4'' ''b'' 60 5 3 50,
           entry ''5'' ''a'' 100 5 3 20, entry ''6'' ''b'' 60 5 3 70,
           entry ''7'' ''a'' 100 5 3 40]"]
  by (simp add: getRecentWorkouts_def sort_cmp_def holding_def initial_def entry_def Let_def)

text \<open>
  Claim C8 at a workout list that is not in descending order of date: the call leaves
  the two entries of the state in the other order.
\<close>

theorem recent_reorders_workouts:
  "workouts (snd (getRecentWorkouts (holding []
      [entry ''1'' ''a'' 100 5 3 1, entry ''2'' ''a'' 105 5 3 2])))
   = [entry ''2'' ''a'' 105 5 3 2, entry ''1'' ''a'' 100 5 3 1]
   \<and> workouts (holding [] [entry ''1'' ''a'' 100 5 3 1, entry ''2'' ''a'' 105 5 3 2])
   = [entry ''1'' ''a'' 100 5 3 1, entry ''2'' ''a'' 105 5 3 2]"
  by (simp add: getRecentWorkouts_def sort_cmp_def holding_def initial_def entry_def Let_def)

section \<open>Counting exercises and records\<close>

lemma num_lt_trans: "num_lt a b \<Longrightarrow> num_lt b c \<Longrightarrow> num_lt a c"
  by (cases a; cases b; cases c) auto

lemma map_fst_map_set:
  "map fst (map_set k v m) = (if k \<in> set (map fst m) then map fst m else map fst m @ [k])"
  by (induction m) (fastforce simp: image_iff)+

lemma keys_map_set: "fst ` set (map_set k v m) = insert k (fst ` set m)"
proof -
  have "set (map fst (map_set k v m)) = insert k (set (map fst m))"
    by (simp only: map_fst_map_set) auto
  then show ?thesis by simp
qed

lemma distinct_map_set: "distinct (map fst m) \<Longrightarrow> distinct (map fst (map_set k v m))"
  by (simp only: map_fst_map_set) auto

lemma values_map_set: "(a, b) \<in> set (map_set k v m) \<Longrightarrow> b = v \<or> (a, b) \<in> set m"
  by (induction m) (auto split: if_splits)

lemma record_step_ok:
  assumes "records_ok m"
  shows "records_ok (record_step w m)"
    and "fst ` set (record_step w m)
         = fst ` set m \<union> (if num_gt (weight w) (Fin 0) then {liftId w} else {})"
proof -
  have stored: "num_gt v (Fin 0) \<and> num_truthy v \<and> liftId w \<in> fst ` set m"
    if "map_of m (liftId w) = Some v" for v
  proof -
    from that have in_m: "(liftId w, v) \<in> set m"
      by (rule map_of_SomeD)
    then have "num_gt v (Fin 0)"
      using assms by (auto simp: records_ok_def)
    moreover from this have "num_truthy v"
      by (cases v) (auto simp: num_truthy_def num_gt_def)
    moreover have "liftId w \<in> fst ` set m"
      using in_m by (metis fst_conv image_eqI)
    ultimately show ?thesis by simp
  qed
  have set_ok: "records_ok (map_set (liftId w) (weight w) m)"
    if "num_gt (weight w) (Fin 0)"
  proof -
    have "num_gt b (Fin 0)" if "(a, b) \<in> set (map_set (liftId w) (weight w) m)" for a b
    proof -
      from values_map_set [OF that] show ?thesis
      proof
        assume "b = weight w"
        with \<open>num_gt (weight w) (Fin 0)\<close> show ?thesis by simp
      next
        assume "(a, b) \<in> set m"
        with assms show ?thesis by (fastforce simp: records_ok_def)
      qed
    qed
    then show ?thesis
      using assms by (auto simp: records_ok_def distinct_map_set)
  qed
  show "records_ok (record_step w m)"
  proof (cases "map_of m (liftId w)")
    case None
    then show ?thesis
      using assms set_ok by (simp add: record_step_def)
  next
    case (Some v)
    have "num_gt (weight w) (Fin 0)" if "num_gt (weight w) v"
      using that stored [OF Some] num_lt_trans by (auto simp: num_gt_def)
    then show ?thesis
      using assms Some stored [OF Some] set_ok by (simp add: record_step_def)
  qed
  show "fst ` set (record_step w m)
         = fst ` set m \<union> (if num_gt (weight w) (Fin 0) then {liftId w} else {})"
  proof (cases "map_of m (liftId w)")
    case None
    then show ?thesis
      by (auto simp: record_step_def keys_map_set)
  next
    case (Some v)
    then show ?thesis
      using stored [OF Some] by (auto simp: record_step_def keys_map_set)
  qed
qed

lemma fold_record_step:
  assumes "records_ok m"
  shows "records_ok (fold record_step ws m)
   \<and> fst ` set (fold record_step ws m)
       = fst ` set m \<union> liftId ` {w \<in> set ws. num_gt (weight w) (Fin 0)}"
  using assms
proof (induction ws arbitrary: m)
  case Nil
  then show ?case by simp
next
  case (Cons w ws)
  from record_step_ok [OF Cons.prems, of w] Cons.IH [of "record_step w m"]
  show ?case by auto
qed

lemma fold_set_add:
  "distinct acc \<Longrightarrow> distinct (fold set_add xs acc) \<and> set (fold set_add xs acc) = set acc \<union> set xs"
  by (induction xs arbitrary: acc) (auto simp: set_add_def)

lemma size_new_Set: "length (new_Set xs) = card (set xs)"
  using fold_set_add [of "[]" xs] unfolding new_Set_def by (metis distinct.simps(1) distinct_card empty_set sup_bot_left)

lemma size_records:
  "length (fold record_step ws []) = card (liftId ` {w \<in> set ws. num_gt (weight w) (Fin 0)})"
proof -
  have ok: "records_ok []" by (simp add: records_ok_def)
  let ?m = "fold record_step ws []"
  from fold_record_step [OF ok, of ws]
  have "distinct (map fst ?m)" and k: "fst ` set ?m = liftId ` {w \<in> set ws. num_gt (weight w) (Fin 0)}"
    by (simp_all add: records_ok_def)
  then have "length ?m = card (set (map fst ?m))"
    by (metis distinct_card length_map)
  then show ?thesis using k by simp
qed

text \<open>
  Claim C7, as the code has it.  The number of personal records is the number of
  distinct exercise ids that have an entry with a weight greater than zero; the number
  of unique exercises is the number of distinct exercise ids of all entries.  So the
  first is at most the second, and they are equal when every entry has a weight greater
  than zero.
\<close>

theorem records_count_positive_weights:
  "personalRecords (getMetrics now st)
     = card (liftId ` {w \<in> set (workouts st). num_gt (weight w) (Fin 0)})
   \<and> uniqueExercises (getMetrics now st) = card (liftId ` set (workouts st))
   \<and> personalRecords (getMetrics now st) \<le> uniqueExercises (getMetrics now st)
   \<and> ((\<forall>w \<in> set (workouts st). num_gt (weight w) (Fin 0))
        \<longrightarrow> personalRecords (getMetrics now st) = uniqueExercises (getMetrics now st))"
proof -
  let ?pos = "{w \<in> set (workouts st). num_gt (weight w) (Fin 0)}"
  have p: "personalRecords (getMetrics now st) = card (liftId ` ?pos)"
    by (simp add: getMetrics_def Let_def size_records)
  have u: "uniqueExercises (getMetrics now st) = card (liftId ` set (workouts st))"
    by (simp add: getMetrics_def Let_def size_new_Set)
  have "card (liftId ` ?pos) \<le> card (liftId ` set (workouts st))"
    by (rule card_mono) auto
  moreover have "?pos = set (workouts st)"
    if "\<forall>w \<in> set (workouts st). num_gt (weight w) (Fin 0)"
    using that by auto
  ultimately show ?thesis
    using p u by auto
qed

theorem records_count_positive_weights_witness:
  "personalRecords (getMetrics 0 (holding []
      [entry ''3'' ''b'' 60 8 3 3, entry ''2'' ''a'' 105 5 3 2, entry ''1'' ''a'' 100 5 3 1])) = 2
   \<and> uniqueExercises (getMetrics 0 (holding []
      [entry ''3'' ''b'' 60 8 3 3, entry ''2'' ''a'' 105 5 3 2, entry ''1'' ''a'' 100 5 3 1])) = 2"
  using records_count_positive_weights [of 0 "holding []
      [entry ''3'' ''b'' 60 8 3 3, entry ''2'' ''a'' 105 5 3 2, entry ''1'' ''a'' 100 5 3 1]"]
  by (simp add: holding_def initial_def entry_def num_gt_def card_insert_if)

text \<open>
  The claim as written fails for an exercise logged with weight zero only (the text
  \<^verbatim>\<open>0\<close> is not empty, so the session is logged): it counts as an exercise trained
  and has no record.
\<close>

theorem zero_weight_no_record:
  "workouts (run [TypeLiftName ''Plank'', AddLift 1 1, SelectLift ''1'', TypeWeight ''0'',
       TypeReps ''10'', TypeSets ''3'', LogWorkout 2 2] initial)
     = [entry ''2'' ''1'' 0 10 3 2]
   \<and> personalRecords (getMetrics 0 (holding [] [entry ''2'' ''1'' 0 10 3 2])) = 0
   \<and> uniqueExercises (getMetrics 0 (holding [] [entry ''2'' ''1'' 0 10 3 2])) = 1"
  by (simp add: run_def addLift_def logWorkout_def trim_def is_ws_def toString_small
      parse_samples getMetrics_def Let_def record_step_def new_Set_def set_add_def num_gt_def
      holding_def initial_def entry_def)

section \<open>Total volume\<close>

lemma representable_dyadic:
  assumes "(of_nat m :: rat) \<le> 2 ^ 53" and "k \<le> 1022"
  shows "representable (of_nat m / 2 ^ k)"
proof -
  have "(of_int (int m) :: rat) \<le> of_int (2 ^ 53)"
    using assms(1) by simp
  then have "int m \<le> 2 ^ 53"
    by (simp only: of_int_le_iff)
  then have "\<bar>int m\<bar> \<le> 2 ^ 53" by simp
  from fl_dyadic [OF this assms(2)] show ?thesis
    by (simp add: representable_def)
qed

lemma is_fin_the_rat: "is_fin a \<Longrightarrow> a = Fin (the_rat a)"
  by (cases a) (simp_all add: is_fin_def)

lemma fold_exact_steps:
  assumes "exact_steps a ws"
  shows "fold (\<lambda>w sum. num_add sum (volume w)) ws (Fin a) = Fin (a + exact_total ws)"
  using assms
proof (induction ws arbitrary: a)
  case Nil
  then show ?case by (simp add: exact_total_def)
next
  case (Cons w ws)
  obtain x r s where w: "weight w = Fin x" "reps w = Fin r" "sets w = Fin s"
    using Cons.prems is_fin_the_rat by (metis exact_steps.simps(2))
  have v: "exact_volume w = x * r * s"
    by (simp add: exact_volume_def w)
  from Cons.prems have r: "fl (x * r) = Fin (x * r)" "fl (x * r * s) = Fin (x * r * s)"
    "fl (a + x * r * s) = Fin (a + x * r * s)"
    and rest: "exact_steps (a + x * r * s) ws"
    by (simp_all add: representable_def w v)
  have "volume w = num_mul (fl (x * r)) (Fin s)"
    by (simp add: volume_def w)
  also have "\<dots> = Fin (x * r * s)"
    by (simp only: r num_mul.simps)
  finally have "num_add (Fin a) (volume w) = Fin (a + x * r * s)"
    by (simp only: r num_add.simps)
  with Cons.IH [OF rest] show ?case
    by (simp add: exact_total_def v add.assoc)
qed

lemma is_wholeE:
  assumes "is_whole a"
  obtains j :: nat where "a = Fin (of_nat j)"
proof -
  from assms obtain x where a: "a = Fin x" and x: "0 \<le> x" "x = of_int \<lfloor>x\<rfloor>"
    by (auto simp: is_whole_def split: number.splits)
  from x have "0 \<le> \<lfloor>x\<rfloor>" by simp
  then have "of_nat (nat \<lfloor>x\<rfloor>) = (of_int \<lfloor>x\<rfloor> :: rat)"
    by simp
  with x(2) have "a = Fin (of_nat (nat \<lfloor>x\<rfloor>))"
    by (simp add: a)
  then show ?thesis by (rule that)
qed

lemma is_dyadicE:
  assumes "is_dyadic k a"
  obtains u :: nat where "a = Fin (of_nat u / 2 ^ k)"
proof -
  from assms obtain x where a: "a = Fin x" and x: "0 \<le> x" "x * 2 ^ k = of_int \<lfloor>x * 2 ^ k\<rfloor>"
    by (auto simp: is_dyadic_def split: number.splits)
  from x(1) have "0 \<le> x * 2 ^ k" by simp
  then have "0 \<le> \<lfloor>x * 2 ^ k\<rfloor>" by simp
  then have "of_nat (nat \<lfloor>x * 2 ^ k\<rfloor>) = (of_int \<lfloor>x * 2 ^ k\<rfloor> :: rat)"
    by simp
  with x(2) have "x * 2 ^ k = of_nat (nat \<lfloor>x * 2 ^ k\<rfloor>)"
    by simp
  then have "x = of_nat (nat \<lfloor>x * 2 ^ k\<rfloor>) / 2 ^ k"
    by (simp add: field_simps)
  then have "a = Fin (of_nat (nat \<lfloor>x * 2 ^ k\<rfloor>) / 2 ^ k)"
    by (simp only: a)
  then show ?thesis by (rule that)
qed

lemma dyadic_entryE:
  assumes "dyadic_entry k w"
  obtains u r s :: nat
  where "weight w = Fin (of_nat u / 2 ^ k)" "reps w = Fin (of_nat r)" "sets w = Fin (of_nat s)"
    "1 \<le> r" "1 \<le> s" "exact_volume w = of_nat (u * r * s) / 2 ^ k"
proof -
  from assms obtain u r s :: nat
    where w: "weight w = Fin (of_nat u / 2 ^ k)" "reps w = Fin (of_nat r)"
      "sets w = Fin (of_nat s)"
    unfolding dyadic_entry_def by (metis is_dyadicE is_wholeE)
  from assms have "1 \<le> r" "1 \<le> s"
    by (auto simp: dyadic_entry_def w num_gt_def)
  moreover have "exact_volume w = of_nat (u * r * s) / 2 ^ k"
    by (simp add: exact_volume_def w)
  ultimately show ?thesis using w that by blast
qed

lemma dyadic_total_nonneg:
  "\<forall>w \<in> set ws. dyadic_entry k w \<Longrightarrow> 0 \<le> exact_total ws"
proof (induction ws)
  case Nil
  then show ?case by (simp add: exact_total_def)
next
  case (Cons w ws)
  then have "dyadic_entry k w" by simp
  then obtain n :: nat where "exact_volume w = of_nat n / 2 ^ k"
    by (rule dyadic_entryE) blast
  then have "0 \<le> exact_volume w" by simp
  with Cons show ?case by (simp add: exact_total_def)
qed

lemma dyadic_steps:
  assumes "\<forall>w \<in> set ws. dyadic_entry k w" and "k \<le> 1022"
    and "(of_nat A / 2 ^ k + exact_total ws) * 2 ^ k \<le> 2 ^ 53"
  shows "exact_steps (of_nat A / 2 ^ k) ws"
  using assms(1,3)
proof (induction ws arbitrary: A)
  case Nil
  then show ?case by simp
next
  case (Cons w ws)
  have t: "exact_total (w # ws) = exact_volume w + exact_total ws"
    by (simp add: exact_total_def)
  have rest: "0 \<le> exact_total ws"
    using Cons.prems(1) by (simp add: dyadic_total_nonneg [of _ k])
  from Cons.prems(1) have "dyadic_entry k w" by simp
  then obtain u r s :: nat
    where w: "weight w = Fin (of_nat u / 2 ^ k)" "reps w = Fin (of_nat r)"
      "sets w = Fin (of_nat s)" and pos: "1 \<le> r" "1 \<le> s"
      and v: "exact_volume w = of_nat (u * r * s) / 2 ^ k"
    by (rule dyadic_entryE)
  have "(of_nat A / 2 ^ k + (of_nat (u * r * s) / 2 ^ k + exact_total ws)) * 2 ^ k
        = (of_nat A + of_nat (u * r * s) + exact_total ws * 2 ^ k :: rat)"
    by (simp add: distrib_right)
  then have "of_nat A + of_nat (u * r * s) + exact_total ws * 2 ^ k \<le> (2 ^ 53 :: rat)"
    using Cons.prems(2) unfolding t v by simp
  moreover have "0 \<le> exact_total ws * 2 ^ k"
    using rest by simp
  ultimately have bound: "(of_nat (A + u * r * s) :: rat) \<le> 2 ^ 53"
    by simp
  have "u * r \<le> u * r * s"
    using pos(2) by (cases s) simp_all
  then have "u * r \<le> A + u * r * s" "u * r * s \<le> A + u * r * s"
    by linarith+
  then have "(of_nat (u * r) :: rat) \<le> of_nat (A + u * r * s)"
    "(of_nat (u * r * s) :: rat) \<le> of_nat (A + u * r * s)"
    by (simp_all only: of_nat_le_iff)
  with bound have b: "(of_nat (u * r) :: rat) \<le> 2 ^ 53" "(of_nat (u * r * s) :: rat) \<le> 2 ^ 53"
    by linarith+
  have 1: "representable (the_rat (weight w) * the_rat (reps w))"
    using representable_dyadic [OF b(1) assms(2)] by (simp add: w)
  have 2: "representable (exact_volume w)"
    using representable_dyadic [OF b(2) assms(2)] by (simp only: v)
  have s: "of_nat A / 2 ^ k + exact_volume w = (of_nat (A + u * r * s) :: rat) / 2 ^ k"
    by (simp add: v add_divide_distrib)
  have 3: "representable (of_nat A / 2 ^ k + exact_volume w)"
    using representable_dyadic [OF bound assms(2)] by (simp only: s)
  have "(of_nat (A + u * r * s) / 2 ^ k + exact_total ws) * 2 ^ k \<le> (2 ^ 53 :: rat)"
    using Cons.prems(2) unfolding t s [symmetric] by (simp add: add.assoc)
  with Cons.IH [of "A + u * r * s"] Cons.prems(1)
  have 4: "exact_steps (of_nat A / 2 ^ k + exact_volume w) ws"
    by (simp only: s) simp
  show ?case
    using 1 2 3 4 by (simp add: w is_fin_def)
qed

lemma total_weight_exact:
  assumes "exact_steps 0 (workouts st)"
  shows "totalWeight (getMetrics now st) = Fin (exact_total (workouts st))"
  using fold_exact_steps [OF assms] by (simp add: getMetrics_def Let_def)

lemma new_entry_dyadic:
  assumes "weight e = Fin 100" and "reps e = Fin 5" and "sets e = Fin 3"
  shows "dyadic_entry k e" and "exact_volume e = 1500"
proof -
  have "(100 :: rat) * 2 ^ k = of_int (100 * 2 ^ k)" by simp
  then have "(100 :: rat) * 2 ^ k = of_int \<lfloor>(100 :: rat) * 2 ^ k\<rfloor>"
    by (simp only: floor_of_int)
  then show "dyadic_entry k e"
    by (simp add: dyadic_entry_def is_dyadic_def is_whole_def num_gt_def assms)
  show "exact_volume e = 1500"
    by (simp add: exact_volume_def assms)
qed

text \<open>
  Claim C5, as the code has it.  \<^verbatim>\<open>totalWeight\<close> is the sum from left to right in
  binary64 arithmetic: it is zero for the empty list, and for a list with an entry put
  at its end it is the total of the list plus the product of weight and reps times the
  sets of the entry, each operation rounded.  On every list on which none of these
  operations rounds it is the exact sum; and when none rounds on the list either before
  or after an entry of weight 100, reps 5 and sets 3 is put anywhere into it, the total
  after is the exact sum plus 1500.  No operation rounds when, for some \<open>k\<close> up to 1022,
  every weight is a multiple of \<open>2 ^ -k\<close> that is not negative, reps and sets are whole
  numbers of at least one, and the exact sum (with the 1500, for the longer list) times
  \<open>2 ^ k\<close> is at most \<open>2 ^ 53\<close>.
\<close>

theorem total_weight_binary64:
  "(workouts st = [] \<longrightarrow> totalWeight (getMetrics now st) = Fin 0)
   \<and> totalWeight (getMetrics now (st\<lparr>workouts := workouts st @ [w]\<rparr>))
       = num_add (totalWeight (getMetrics now st))
           (num_mul (num_mul (weight w) (reps w)) (sets w))
   \<and> (exact_steps 0 (workouts st)
        \<longrightarrow> totalWeight (getMetrics now st) = Fin (exact_total (workouts st)))
   \<and> (weight e = Fin 100 \<and> reps e = Fin 5 \<and> sets e = Fin 3 \<and> workouts st = xs @ ys
        \<and> exact_steps 0 (workouts st) \<and> exact_steps 0 (xs @ e # ys)
        \<longrightarrow> totalWeight (getMetrics now st) = Fin (exact_total (workouts st))
          \<and> totalWeight (getMetrics now' (st\<lparr>workouts := xs @ e # ys\<rparr>))
              = Fin (exact_total (workouts st) + 1500))
   \<and> ((\<forall>w \<in> set (workouts st). dyadic_entry k w) \<and> k \<le> 1022
        \<and> exact_total (workouts st) * 2 ^ k \<le> 2 ^ 53
        \<longrightarrow> exact_steps 0 (workouts st)
          \<and> totalWeight (getMetrics now st) = Fin (exact_total (workouts st)))
   \<and> ((\<forall>w \<in> set (workouts st). dyadic_entry k w) \<and> k \<le> 1022
        \<and> weight e = Fin 100 \<and> reps e = Fin 5 \<and> sets e = Fin 3 \<and> workouts st = xs @ ys
        \<and> (exact_total (workouts st) + 1500) * 2 ^ k \<le> 2 ^ 53
        \<longrightarrow> exact_steps 0 (xs @ e # ys)
          \<and> totalWeight (getMetrics now st) = Fin (exact_total (workouts st))
          \<and> totalWeight (getMetrics now' (st\<lparr>workouts := xs @ e # ys\<rparr>))
              = Fin (exact_total (workouts st) + 1500))"
proof -
  have empty: "totalWeight (getMetrics now st) = Fin 0" if "workouts st = []"
    using that by (simp add: getMetrics_def Let_def)
  have snoc: "totalWeight (getMetrics now (st\<lparr>workouts := workouts st @ [w]\<rparr>))
       = num_add (totalWeight (getMetrics now st))
           (num_mul (num_mul (weight w) (reps w)) (sets w))"
    by (simp add: getMetrics_def Let_def volume_def)
  have steps: "exact_steps 0 zs"
    if "\<forall>w \<in> set zs. dyadic_entry k w" "k \<le> 1022" "exact_total zs * 2 ^ k \<le> 2 ^ 53" for zs
    using dyadic_steps [of zs k 0] that by simp
  have total: "exact_total (xs @ e # ys) = exact_total (workouts st) + 1500"
    if "weight e = Fin 100" "reps e = Fin 5" "sets e = Fin 3" "workouts st = xs @ ys"
    using new_entry_dyadic(2) [OF that(1-3)] by (simp add: exact_total_def that(4))
  have added: "totalWeight (getMetrics now' (st\<lparr>workouts := xs @ e # ys\<rparr>))
              = Fin (exact_total (workouts st) + 1500)"
    if "weight e = Fin 100" "reps e = Fin 5" "sets e = Fin 3" "workouts st = xs @ ys"
      "exact_steps 0 (xs @ e # ys)"
    using total_weight_exact [of "st\<lparr>workouts := xs @ e # ys\<rparr>" now'] that(5)
      total [OF that(1-4)] by simp
  have dyadic_added: "exact_steps 0 (workouts st) \<and> exact_steps 0 (xs @ e # ys)"
    if d: "\<forall>w \<in> set (workouts st). dyadic_entry k w" and k: "k \<le> 1022"
      and e: "weight e = Fin 100" "reps e = Fin 5" "sets e = Fin 3"
      and ws: "workouts st = xs @ ys"
      and bound: "(exact_total (workouts st) + 1500) * 2 ^ k \<le> 2 ^ 53"
  proof -
    have "0 \<le> (1500 :: rat) * 2 ^ k" by simp
    moreover have "(exact_total (workouts st) + 1500) * 2 ^ k
                   = exact_total (workouts st) * 2 ^ k + 1500 * 2 ^ k"
      by (simp add: distrib_right)
    ultimately have "exact_total (workouts st) * 2 ^ k \<le> 2 ^ 53"
      using bound by linarith
    then have old: "exact_steps 0 (workouts st)"
      using d k by (intro steps)
    have "\<forall>w \<in> set (xs @ e # ys). dyadic_entry k w"
      using d new_entry_dyadic(1) [OF e] by (auto simp: ws)
    moreover have "exact_total (xs @ e # ys) * 2 ^ k \<le> 2 ^ 53"
      using bound by (simp only: total [OF e ws])
    ultimately have "exact_steps 0 (xs @ e # ys)"
      using k by (intro steps)
    with old show ?thesis ..
  qed
  show ?thesis
    using empty snoc total_weight_exact [of st now] added steps [of "workouts st"] dyadic_added
    by blast
qed

theorem total_weight_binary64_witness:
  "totalWeight (getMetrics 0 (holding []
      [entry ''1'' ''a'' (205 / 2) 5 3 1, entry ''2'' ''b'' (95 / 2) 8 4 2])) = Fin (6115 / 2)
   \<and> totalWeight (getMetrics 0 (holding []
      [entry ''1'' ''a'' (205 / 2) 5 3 1, entry ''3'' ''a'' 100 5 3 3,
       entry ''2'' ''b'' (95 / 2) 8 4 2])) = Fin (9115 / 2)
   \<and> totalWeight (getMetrics 0 (holding []
      [entry ''1'' ''a'' (5643573283048653 / 140737488355328) 8 4 1]))
       = Fin (5643573283048653 / 4398046511104)
   \<and> totalWeight (getMetrics 0 (holding [] [])) = Fin 0"
  using
    total_weight_binary64 [where st = "holding []
      [entry ''1'' ''a'' (205 / 2) 5 3 1, entry ''2'' ''b'' (95 / 2) 8 4 2]"
      and e = "entry ''3'' ''a'' 100 5 3 3" and xs = "[entry ''1'' ''a'' (205 / 2) 5 3 1]"
      and ys = "[entry ''2'' ''b'' (95 / 2) 8 4 2]" and k = 1 and now = 0 and now' = 0]
    total_weight_binary64 [where st = "holding []
      [entry ''1'' ''a'' (5643573283048653 / 140737488355328) 8 4 1]" and now = 0]
    total_weight_binary64 [where st = "holding [] []" and now = 0]
  by (simp add: holding_def initial_def entry_def dyadic_entry_def is_dyadic_def is_whole_def
      num_gt_def exact_total_def exact_volume_def is_fin_def representable_def fl_sums
      fl_numeral)

text \<open>
  The claim as written fails as soon as an operation rounds.  A session of 8 reps and 4
  sets at 40.1 is logged, then one of 5 reps and 3 sets at 100: the total is not the
  exact sum of the products of the stored numbers, and it has grown by less than 1500.
\<close>

theorem total_weight_rounds:
  "totalWeight (getMetrics 0 (run
      [TypeLiftName ''Squat'', AddLift 1 1, SelectLift ''1'',
       TypeWeight ''40.1'', TypeReps ''8'', TypeSets ''4'', LogWorkout 2 2] initial))
     = Fin (5643573283048653 / 4398046511104)
   \<and> totalWeight (getMetrics 0 (run
      [TypeLiftName ''Squat'', AddLift 1 1, SelectLift ''1'',
       TypeWeight ''40.1'', TypeReps ''8'', TypeSets ''4'', LogWorkout 2 2,
       TypeWeight ''100'', TypeReps ''5'', TypeSets ''3'', LogWorkout 3 3] initial))
     = Fin (3060160762426163 / 1099511627776)
   \<and> exact_total (workouts (run
      [TypeLiftName ''Squat'', AddLift 1 1, SelectLift ''1'',
       TypeWeight ''40.1'', TypeReps ''8'', TypeSets ''4'', LogWorkout 2 2,
       TypeWeight ''100'', TypeReps ''5'', TypeSets ''3'', LogWorkout 3 3] initial))
     = 12240643049704653 / 4398046511104
   \<and> (3060160762426163 / 1099511627776 :: rat) \<noteq> 12240643049704653 / 4398046511104
   \<and> (3060160762426163 / 1099511627776 :: rat) - 5643573283048653 / 4398046511104 \<noteq> 1500"
  by (simp add: run_def initial_def addLift_def logWorkout_def trim_def is_ws_def
      toString_small parse_samples parseFloat_40_1 getMetrics_def volume_def
      fl_numeral fl_sums exact_total_def exact_volume_def Let_def)

section \<open>Logging a session\<close>

lemma difficulty_range: "1 \<le> difficulty_value d \<and> difficulty_value d \<le> 5"
  by (cases d) simp_all

lemma handle_entries:
  assumes "w \<in> set (workouts (handle ev st))"
  shows "w \<in> set (workouts st)
         \<or> (liftId w \<noteq> [] \<and> (\<exists>a b c. a \<noteq> [] \<and> b \<noteq> [] \<and> c \<noteq> []
               \<and> weight w = parseFloat a \<and> reps w = parseInt b \<and> sets w = parseInt c))"
proof (cases ev)
  case (LogWorkout t\<^sub>1 t\<^sub>2)
  show ?thesis
  proof (cases "selectedLiftId st \<noteq> [] \<and> weight_text st \<noteq> [] \<and> reps_text st \<noteq> []
                \<and> sets_text st \<noteq> []")
    case True
    let ?new = "\<lparr>entry_id = toString t\<^sub>1, liftId = selectedLiftId st,
                 weight = parseFloat (weight_text st), reps = parseInt (reps_text st),
                 sets = parseInt (sets_text st), difficulty = difficulty_sel st,
                 date = t\<^sub>2\<rparr>"
    from assms LogWorkout True have "w = ?new \<or> w \<in> set (workouts st)"
      by (simp add: logWorkout_def Let_def)
    then show ?thesis
    proof
      assume w: "w = ?new"
      have "weight_text st \<noteq> [] \<and> reps_text st \<noteq> [] \<and> sets_text st \<noteq> []
            \<and> weight w = parseFloat (weight_text st) \<and> reps w = parseInt (reps_text st)
            \<and> sets w = parseInt (sets_text st)"
        using True by (simp add: w)
      then have "\<exists>a b c. a \<noteq> [] \<and> b \<noteq> [] \<and> c \<noteq> []
            \<and> weight w = parseFloat a \<and> reps w = parseInt b \<and> sets w = parseInt c"
        by blast
      moreover have "liftId w \<noteq> []"
        using True by (simp add: w)
      ultimately show ?thesis by blast
    qed simp
  next
    case False
    with assms LogWorkout show ?thesis
      by (auto simp: logWorkout_def)
  qed
qed (use assms in \<open>auto simp: addLift_def deleteLift_def deleteWorkout_def Let_def
      split: if_splits\<close>)

lemma run_entries:
  assumes "w \<in> set (workouts (run evs st))"
  shows "w \<in> set (workouts st)
         \<or> (liftId w \<noteq> [] \<and> (\<exists>a b c. a \<noteq> [] \<and> b \<noteq> [] \<and> c \<noteq> []
               \<and> weight w = parseFloat a \<and> reps w = parseInt b \<and> sets w = parseInt c))"
  using assms
proof (induction evs arbitrary: st)
  case Nil
  then show ?case by (simp add: run_def)
next
  case (Cons ev evs)
  then have "w \<in> set (workouts (run evs (handle ev st)))"
    by (simp add: run_def)
  from Cons.IH [OF this] handle_entries [of w ev st] show ?case
    by blast
qed

text \<open>
  Claim C9, as the code has it.  Starting from the empty lists, after any sequence of
  events every workout entry has a difficulty from 1 to 5 and an exercise id that is not
  empty, and its weight, reps and sets are what \<^verbatim>\<open>parseFloat\<close>, \<^verbatim>\<open>parseInt\<close> and
  \<^verbatim>\<open>parseInt\<close> give for texts that are not empty: no range is imposed on them.
  \<^verbatim>\<open>logWorkout\<close> with the exercise or one of the three texts missing returns the
  state as it was.
\<close>

theorem logged_entries:
  "(\<forall>w \<in> set (workouts (run evs initial)).
       1 \<le> difficulty_value (difficulty w) \<and> difficulty_value (difficulty w) \<le> 5
     \<and> liftId w \<noteq> []
     \<and> (\<exists>a b c. a \<noteq> [] \<and> b \<noteq> [] \<and> c \<noteq> []
          \<and> weight w = parseFloat a \<and> reps w = parseInt b \<and> sets w = parseInt c))
   \<and> (selectedLiftId st = [] \<or> weight_text st = [] \<or> reps_text st = [] \<or> sets_text st = []
        \<longrightarrow> logWorkout t\<^sub>1 t\<^sub>2 st = st)"
proof -
  have "workouts initial = []"
    by (simp add: initial_def)
  then have "liftId w \<noteq> [] \<and> (\<exists>a b c. a \<noteq> [] \<and> b \<noteq> [] \<and> c \<noteq> []
               \<and> weight w = parseFloat a \<and> reps w = parseInt b \<and> sets w = parseInt c)"
    if "w \<in> set (workouts (run evs initial))" for w
    using run_entries [OF that] by simp
  moreover have "logWorkout t\<^sub>1 t\<^sub>2 st = st"
    if "selectedLiftId st = [] \<or> weight_text st = [] \<or> reps_text st = [] \<or> sets_text st = []"
    using that by (auto simp: logWorkout_def)
  ultimately show ?thesis
    using difficulty_range by blast
qed

theorem logged_entries_witness:
  "workouts (run [TypeLiftName ''Squat'', AddLift 1 1, SelectLift ''1'', TypeWeight ''100'',
       TypeReps ''5'', TypeSets ''3'', PressLevel D5, LogWorkout 2 2] initial)
     = [\<lparr>entry_id = ''2'', liftId = ''1'', weight = Fin 100, reps = Fin 5, sets = Fin 3,
         difficulty = D5, date = 2\<rparr>]
   \<and> logWorkout 3 3 (run [TypeLiftName ''Squat'', AddLift 1 1, SelectLift ''1'',
       TypeWeight ''100'', TypeReps ''5''] initial)
     = run [TypeLiftName ''Squat'', AddLift 1 1, SelectLift ''1'',
       TypeWeight ''100'', TypeReps ''5''] initial"
  using logged_entries [of "[TypeLiftName ''Squat'', AddLift 1 1, SelectLift ''1'',
       TypeWeight ''100'', TypeReps ''5'', TypeSets ''3'', PressLevel D5, LogWorkout 2 2]"
      "run [TypeLiftName ''Squat'', AddLift 1 1, SelectLift ''1'',
       TypeWeight ''100'', TypeReps ''5''] initial" 3 3]
  by (simp add: run_def initial_def addLift_def logWorkout_def trim_def is_ws_def
      toString_small parse_samples Let_def)

text \<open>
  The claim as written fails: the texts \<^verbatim>\<open>-5\<close>, \<^verbatim>\<open>0\<close> and \<^verbatim>\<open>0\<close> are not empty
  and are logged as a weight below zero with reps and sets below one.
\<close>

theorem negative_weight_logged:
  "workouts (run [TypeLiftName ''Squat'', AddLift 1 1, SelectLift ''1'', TypeWeight ''-5'',
       TypeReps ''0'', TypeSets ''0'', LogWorkout 2 2] initial)
     = [\<lparr>entry_id = ''2'', liftId = ''1'', weight = Fin (- 5), reps = Fin 0, sets = Fin 0,
         difficulty = D3, date = 2\<rparr>]
   \<and> num_lt (Fin (- 5)) (Fin 0) \<and> num_lt (Fin 0) (Fin 1)"
  by (simp add: run_def initial_def addLift_def logWorkout_def trim_def is_ws_def
      toString_small parseFloat_neg parseInt_0 Let_def)

end
